theory Spec2Isabelle
  imports Complex_Main "HOL-Library.AList"
begin

section \<open>The TF client of roslibjs (src/tf/TFClient.js)\<close>

text \<open>
  The client keeps, per coordinate frame, a list of callbacks and the last transform seen.
  It talks to three collaborators that are not part of the file: the timer queue
  (\<^verbatim>\<open>setTimeout\<close>), the service handle (\<^verbatim>\<open>callService\<close>) and topic handles
  (\<^verbatim>\<open>subscribe\<close>, \<^verbatim>\<open>unsubscribe\<close>). Every method is embedded as a function from the
  client object to the new client object together with the list of calls it makes to these
  collaborators and to the user's callbacks, in program order.

  Conventions of the embedding.
  \<^item> A callback is a handle compared by identity (\<^verbatim>\<open>indexOf\<close> uses \<^verbatim>\<open>===\<close>); calling it
    is recorded as an effect. Callbacks are taken to return normally and not to call back
    into the client while it runs.
  \<^item> A JavaScript number is a rational, a literal such as \<^verbatim>\<open>0.01\<close> the fraction it is
    written as. The file stores numbers, hands them on and tests them for zero
    (\<^verbatim>\<open>||\<close>); its only arithmetic is \<^verbatim>\<open>Math.floor((seconds - secs) * 1000000000)\<close>,
    which is done as doubles do it: the number read and the result of each operation are
    rounded to 53 significant bits, ties to even (\<open>round53\<close>). \<^verbatim>\<open>NaN\<close>, the infinities,
    overflow and underflow are left out.
  \<^item> An exception is the value \<open>Inl TypeError\<close>; the method that throws leaves no result.
  \<^item> \<^verbatim>\<open>Object.prototype\<close> is the one the language provides: nothing has added
    properties to it.
\<close>

subsection \<open>Data\<close>

type_synonym cb = nat

record Vector3 =
  vx :: rat
  vy :: rat
  vz :: rat

record Quaternion =
  qx :: rat
  qy :: rat
  qz :: rat
  qw :: rat

record Transform =
  translation :: Vector3
  rotation :: Quaternion

text \<open>
  Modelled from the spec: the constructor \<^verbatim>\<open>Transform\<close> of \<^verbatim>\<open>../math/Transform\<close> is not
  among the sources. The spec describes it as "constructing a plain transform value object from
  already-decoded numeric fields": translation (3 components) and rotation (4 components).
\<close>

definition new_Transform :: "Vector3 \<Rightarrow> Quaternion \<Rightarrow> Transform" where
  "new_Transform t r = \<lparr>translation = t, rotation = r\<rparr>"

text \<open>One element of \<^verbatim>\<open>tf.transforms\<close>: \<^verbatim>\<open>{child_frame_id, transform: {translation, rotation}}\<close>.\<close>

record TransformStamped =
  child_frame_id :: string
  msg_translation :: Vector3
  msg_rotation :: Quaternion

record TFArray =
  transforms :: "TransformStamped list"

text \<open>The value of \<^verbatim>\<open>this.frameInfos[frameID]\<close>: \<^verbatim>\<open>{cbs: [...], transform: ...}\<close>;
  \<open>None\<close> is \<^verbatim>\<open>undefined\<close>.\<close>

record frameInfo =
  cbs :: "cb list"
  transform :: "Transform option"

record time =
  secs :: int
  nsecs :: int

record ServiceRequest =
  source_frames :: "string list"
  target_frame :: string
  angular_thres :: rat
  trans_thres :: rat
  req_rate :: rat
  timeout :: time

datatype service = Service (service_name: string) (serviceType: string)

datatype topic = Topic (name: string) (messageType: string)

datatype response = Response (topic_name: string)

datatype ros = Ros string

text \<open>The argument of the constructor; \<open>None\<close> is an absent (\<^verbatim>\<open>undefined\<close>) key.\<close>

record options =
  opt_ros :: "ros option"
  opt_fixedFrame :: "string option"
  opt_angularThres :: "rat option"
  opt_transThres :: "rat option"
  opt_rate :: "rat option"
  opt_goalUpdateDelay :: "rat option"
  opt_topicTimeout :: "rat option"

text \<open>
  The client object. \<^verbatim>\<open>frameInfos\<close> is a JavaScript object used as a dictionary: an
  association list in insertion order, with distinct keys. \<^verbatim>\<open>currentTopic\<close> is
  \<^verbatim>\<open>false\<close> (\<open>None\<close>) or a topic handle. \<^verbatim>\<open>needUpdate\<close> does not exist until
  \<^verbatim>\<open>unsubscribe\<close> sets it to \<^verbatim>\<open>true\<close>; \<open>False\<close> stands for the missing property.
\<close>

record tfclient =
  ros :: ros
  fixedFrame :: string
  angularThres :: rat
  transThres :: rat
  rate :: rat
  goalUpdateDelay :: rat
  topicTimeout :: time
  currentTopic :: "topic option"
  frameInfos :: "(string \<times> frameInfo) list"
  goalUpdateRequested :: bool
  serviceClient :: service
  needUpdate :: bool

datatype error = TypeError | NoSuchEvent

text \<open>What a method does to the outside, in program order.\<close>

datatype effect =
    SetTimeout rat
  | CallService ServiceRequest
  | RosTopic topic
  | TopicSubscribe topic
  | TopicUnsubscribe topic
  | Callback cb Transform

subsection \<open>JavaScript operators the file uses\<close>

text \<open>\<^verbatim>\<open>a || d\<close> on an optional number and on an optional string: \<^verbatim>\<open>undefined\<close>,
  \<^verbatim>\<open>0\<close> and \<^verbatim>\<open>''\<close> are falsy.\<close>

definition or_num :: "rat option \<Rightarrow> rat \<Rightarrow> rat" where
  "or_num a d = (case a of None \<Rightarrow> d | Some v \<Rightarrow> if v = 0 then d else v)"

definition or_str :: "string option \<Rightarrow> string \<Rightarrow> string" where
  "or_str a d = (case a of None \<Rightarrow> d | Some v \<Rightarrow> if v = [] then d else v)"

text \<open>
  Arithmetic on doubles. \<open>bitlen n\<close> is the number of binary digits of \<open>n\<close>;
  \<open>exponent a\<close>, for \<open>0 < a\<close>, is the \<open>e\<close> with \<open>2^e \<le> a < 2^(e+1)\<close>; \<open>round53 x\<close>
  is the multiple of \<open>2^(e-52)\<close> nearest to \<open>x\<close>, the even one of two that are equally
  near: the double that a literal \<open>x\<close> denotes, and the double that an operation with the
  exact result \<open>x\<close> returns.
\<close>

fun bitlen :: "nat \<Rightarrow> nat" where
  "bitlen n = (if n = 0 then 0 else Suc (bitlen (n div 2)))"

declare bitlen.simps [simp del]

definition exponent :: "rat \<Rightarrow> int" where
  "exponent a =
     (if 1 \<le> a then int (bitlen (nat \<lfloor>a\<rfloor>)) - 1
      else - int (bitlen (nat (\<lceil>1 / a\<rceil> - 1))))"

definition pow2 :: "int \<Rightarrow> rat" where
  "pow2 e = (if 0 \<le> e then 2 ^ nat e else 1 / 2 ^ nat (- e))"

definition round_half_even :: "rat \<Rightarrow> int" where
  "round_half_even x =
     (let f = \<lfloor>x\<rfloor>; r = x - of_int f
      in if r < 1 / 2 then f else if 1 / 2 < r then f + 1 else if even f then f else f + 1)"

definition round53 :: "rat \<Rightarrow> rat" where
  "round53 x =
     (if x = 0 then 0
      else let u = pow2 (exponent \<bar>x\<bar> - 52)
           in sgn x * of_int (round_half_even (\<bar>x\<bar> / u)) * u)"

text \<open>\<^verbatim>\<open>if (frameID[0] === '/') { frameID = frameID.substring(1); }\<close>\<close>

definition stripLeadingSlash :: "string \<Rightarrow> string" where
  "stripLeadingSlash frameID =
     (case frameID of [] \<Rightarrow> [] | c # rest \<Rightarrow> if c = CHR ''/'' then rest else frameID)"

text \<open>\<^verbatim>\<open>xs.indexOf(x)\<close>: the first index of \<open>x\<close>, or \<open>-1\<close>.\<close>

fun indexOf :: "'a list \<Rightarrow> 'a \<Rightarrow> int" where
  "indexOf [] x = -1"
| "indexOf (y # ys) x =
     (if y = x then 0 else (let i = indexOf ys x in if i < 0 then -1 else i + 1))"

text \<open>\<^verbatim>\<open>xs.splice(i, 1)\<close> for \<open>0 \<le> i\<close>.\<close>

definition splice1 :: "nat \<Rightarrow> 'a list \<Rightarrow> 'a list" where
  "splice1 i xs = take i xs @ drop (Suc i) xs"

text \<open>
  \<^verbatim>\<open>this.frameInfos = {}\<close> is an ordinary object, so \<^verbatim>\<open>this.frameInfos[k]\<close> also finds
  what the object inherits from \<^verbatim>\<open>Object.prototype\<close>. These are the property names of
  \<^verbatim>\<open>Object.prototype\<close> (ECMAScript, with the legacy accessors every engine has). For each
  of them the lookup yields a function, or \<^verbatim>\<open>Object.prototype\<close> itself for
  \<^verbatim>\<open>__proto__\<close>: a value that is not \<^verbatim>\<open>undefined\<close> and has neither \<^verbatim>\<open>cbs\<close> nor
  \<^verbatim>\<open>transform\<close>.
\<close>

definition Object_prototype_keys :: "string list" where
  "Object_prototype_keys =
     [''constructor'', ''hasOwnProperty'', ''isPrototypeOf'', ''propertyIsEnumerable'',
      ''toLocaleString'', ''toString'', ''valueOf'', ''__proto__'',
      ''__defineGetter__'', ''__defineSetter__'', ''__lookupGetter__'', ''__lookupSetter__'']"

datatype property = Undefined | Own frameInfo | Inherited

definition getFrameInfo :: "(string \<times> frameInfo) list \<Rightarrow> string \<Rightarrow> property" where
  "getFrameInfo fi k =
     (case map_of fi k of
        Some info \<Rightarrow> Own info
      | None \<Rightarrow> if k \<in> set Object_prototype_keys then Inherited else Undefined)"

text \<open>
  \<^verbatim>\<open>for (var frame in this.frameInfos)\<close> visits the keys that are array indices (canonical
  decimal numerals below \<open>2^32 - 1\<close>) in ascending numeric order, then the other keys in
  insertion order.
\<close>

definition is_digit :: "char \<Rightarrow> bool" where
  "is_digit c = (48 \<le> (of_char c :: nat) \<and> (of_char c :: nat) \<le> 57)"

definition decimal :: "string \<Rightarrow> nat" where
  "decimal s = foldl (\<lambda>n c. 10 * n + (of_char c - 48)) 0 s"

definition is_array_index :: "string \<Rightarrow> bool" where
  "is_array_index s =
     (s \<noteq> [] \<and> list_all is_digit s \<and> (s = ''0'' \<or> hd s \<noteq> CHR ''0'') \<and> decimal s < 4294967295)"

definition for_in_keys :: "(string \<times> 'v) list \<Rightarrow> string list" where
  "for_in_keys fi =
     sort_key decimal (filter is_array_index (map fst fi))
       @ filter (\<lambda>k. \<not> is_array_index k) (map fst fi)"

subsection \<open>The constructor\<close>

text \<open>
  \<^verbatim>\<open>options = options || {}\<close>; with no \<^verbatim>\<open>ros\<close> key, \<^verbatim>\<open>this.ros.Service(...)\<close> is a
  property read on \<^verbatim>\<open>undefined\<close> and throws. \<^verbatim>\<open>seconds\<close> is the double of the option
  or of \<^verbatim>\<open>2.0\<close>; \<^verbatim>\<open>Math.floor\<close> is exact, the subtraction and the multiplication
  round.
\<close>

definition TFClient :: "options option \<Rightarrow> error + tfclient" where
  "TFClient opts =
     (let options = (case opts of
                       None \<Rightarrow> \<lparr>opt_ros = None, opt_fixedFrame = None, opt_angularThres = None,
                                opt_transThres = None, opt_rate = None,
                                opt_goalUpdateDelay = None, opt_topicTimeout = None\<rparr>
                     | Some opt \<Rightarrow> opt);
          seconds = round53 (or_num (opt_topicTimeout options) 2);
          s = \<lfloor>seconds\<rfloor>;
          ns = \<lfloor>round53 (round53 (seconds - of_int s) * 1000000000)\<rfloor>
      in case opt_ros options of
           None \<Rightarrow> Inl TypeError
         | Some r \<Rightarrow>
             Inr \<lparr>ros = r,
                  fixedFrame = or_str (opt_fixedFrame options) ''/base_link'',
                  angularThres = or_num (opt_angularThres options) 2,
                  transThres = or_num (opt_transThres options) (1 / 100),
                  rate = or_num (opt_rate options) 10,
                  goalUpdateDelay = or_num (opt_goalUpdateDelay options) 50,
                  topicTimeout = \<lparr>secs = s, nsecs = ns\<rparr>,
                  currentTopic = None,
                  frameInfos = [],
                  goalUpdateRequested = False,
                  serviceClient = Service ''/republish_tfs'' ''tf2_web_republisher/RepublishTFs'',
                  needUpdate = False\<rparr>)"

subsection \<open>The methods\<close>

text \<open>
  \<^verbatim>\<open>processFeedback\<close>, the body of the \<^verbatim>\<open>forEach\<close> over \<^verbatim>\<open>tf.transforms\<close>. On an
  inherited property \<^verbatim>\<open>info.cbs\<close> is \<^verbatim>\<open>undefined\<close> and \<^verbatim>\<open>info.cbs.forEach\<close> throws.
\<close>

definition processTransform ::
  "TransformStamped \<Rightarrow> tfclient \<Rightarrow> error + effect list \<times> tfclient" where
  "processTransform tr this =
     (let frameID = stripLeadingSlash (child_frame_id tr) in
      case getFrameInfo (frameInfos this) frameID of
        Undefined \<Rightarrow> Inr ([], this)
      | Inherited \<Rightarrow> Inl TypeError
      | Own info \<Rightarrow>
          let t = new_Transform (msg_translation tr) (msg_rotation tr);
              info' = info\<lparr>transform := Some t\<rparr>
          in Inr (map (\<lambda>cb. Callback cb t) (cbs info'),
                  this\<lparr>frameInfos := AList.update frameID info' (frameInfos this)\<rparr>))"

fun forEach_transform ::
  "TransformStamped list \<Rightarrow> tfclient \<Rightarrow> error + effect list \<times> tfclient" where
  "forEach_transform [] this = Inr ([], this)"
| "forEach_transform (tr # trs) this =
     (case processTransform tr this of
        Inl e \<Rightarrow> Inl e
      | Inr (fx, this') \<Rightarrow>
          (case forEach_transform trs this' of
             Inl e \<Rightarrow> Inl e
           | Inr (fx', this'') \<Rightarrow> Inr (fx @ fx', this'')))"

definition processFeedback :: "TFArray \<Rightarrow> tfclient \<Rightarrow> error + effect list \<times> tfclient" where
  "processFeedback tf this = forEach_transform (transforms tf) this"

definition updateGoal :: "tfclient \<Rightarrow> effect list \<times> tfclient" where
  "updateGoal this =
     (let request = \<lparr>source_frames = for_in_keys (frameInfos this),
                     target_frame = fixedFrame this,
                     angular_thres = angularThres this,
                     trans_thres = transThres this,
                     req_rate = rate this,
                     timeout = topicTimeout this\<rparr>
      in ([CallService request], this\<lparr>goalUpdateRequested := False\<rparr>))"

definition processResponse :: "response \<Rightarrow> tfclient \<Rightarrow> effect list \<times> tfclient" where
  "processResponse resp this =
     (let fx = (case currentTopic this of None \<Rightarrow> [] | Some old \<Rightarrow> [TopicUnsubscribe old]);
          new = Topic (topic_name resp) ''tf2_web_republisher/TFArray''
      in (fx @ [RosTopic new, TopicSubscribe new], this\<lparr>currentTopic := Some new\<rparr>))"

text \<open>
  \<^verbatim>\<open>subscribe\<close>. On an inherited property the test \<^verbatim>\<open>=== undefined\<close> fails, the value has
  no \<^verbatim>\<open>transform\<close>, and \<^verbatim>\<open>.cbs.push\<close> throws.
\<close>

definition subscribe :: "string \<Rightarrow> cb \<Rightarrow> tfclient \<Rightarrow> error + effect list \<times> tfclient" where
  "subscribe frameID callback this =
     (let frameID = stripLeadingSlash frameID in
      case getFrameInfo (frameInfos this) frameID of
        Undefined \<Rightarrow>
          let fi = frameInfos this @ [(frameID, \<lparr>cbs = [callback], transform = None\<rparr>)]
          in if \<not> goalUpdateRequested this
             then Inr ([SetTimeout (goalUpdateDelay this)],
                       this\<lparr>frameInfos := fi, goalUpdateRequested := True\<rparr>)
             else Inr ([], this\<lparr>frameInfos := fi\<rparr>)
      | Own info \<Rightarrow>
          Inr ((case transform info of None \<Rightarrow> [] | Some t \<Rightarrow> [Callback callback t]),
               this\<lparr>frameInfos :=
                      AList.update frameID (info\<lparr>cbs := cbs info @ [callback]\<rparr>) (frameInfos this)\<rparr>)
      | Inherited \<Rightarrow> Inl TypeError)"

text \<open>\<^verbatim>\<open>unsubscribe\<close>. On an inherited property \<^verbatim>\<open>info.cbs.indexOf\<close> throws.\<close>

definition unsubscribe :: "string \<Rightarrow> cb \<Rightarrow> tfclient \<Rightarrow> error + effect list \<times> tfclient" where
  "unsubscribe frameID callback this =
     (let frameID = stripLeadingSlash frameID in
      case getFrameInfo (frameInfos this) frameID of
        Undefined \<Rightarrow> Inr ([], this)
      | Inherited \<Rightarrow> Inl TypeError
      | Own info \<Rightarrow>
          let cbIndex = indexOf (cbs info) callback in
          if cbIndex \<ge> 0 then
            let info' = info\<lparr>cbs := splice1 (nat cbIndex) (cbs info)\<rparr>;
                fi = (if length (cbs info') = 0
                      then AList.delete frameID (frameInfos this)
                      else AList.update frameID info' (frameInfos this))
            in Inr ([], this\<lparr>frameInfos := fi, needUpdate := True\<rparr>)
          else Inr ([], this))"

subsection \<open>The client in its environment\<close>

text \<open>
  Modelled from the spec: the timer queue, the service handle and the topic handles are
  collaborators outside the file. The spec gives a delayed-task primitive for the debounce,
  a service call that "asynchronously returns a response payload via callback", and a topic
  with "subscribe(callback) delivering decoded messages repeatedly, and unsubscribe()
  stopping delivery". So the environment holds the timers set and not yet fired (each one
  runs \<^verbatim>\<open>updateGoal\<close>; they all carry the same delay, so they fire in the order they were
  set), the service calls whose response has not arrived (each response runs
  \<^verbatim>\<open>processResponse\<close>), and the trace of all effects so far. Topic handles are told apart
  by what they were created with.
\<close>

record world =
  client :: tfclient
  timers :: "rat list"
  in_flight :: "ServiceRequest list"
  trace :: "effect list"

definition perform :: "world \<Rightarrow> effect \<Rightarrow> world" where
  "perform w e =
     (case e of
        SetTimeout d \<Rightarrow> w\<lparr>timers := timers w @ [d], trace := trace w @ [e]\<rparr>
      | CallService r \<Rightarrow> w\<lparr>in_flight := in_flight w @ [r], trace := trace w @ [e]\<rparr>
      | _ \<Rightarrow> w\<lparr>trace := trace w @ [e]\<rparr>)"

definition commit :: "world \<Rightarrow> effect list \<times> tfclient \<Rightarrow> world" where
  "commit w r = foldl perform (w\<lparr>client := snd r\<rparr>) (fst r)"

text \<open>Modelled from the spec: the topic subscriptions that are open after a trace.
  \<^verbatim>\<open>subscribe\<close> on a topic handle opens one, \<^verbatim>\<open>unsubscribe\<close> closes the one of that
  handle.\<close>

definition track :: "topic list \<Rightarrow> effect \<Rightarrow> topic list" where
  "track subs e =
     (case e of
        TopicSubscribe t \<Rightarrow> subs @ [t]
      | TopicUnsubscribe t \<Rightarrow> remove1 t subs
      | _ \<Rightarrow> subs)"

definition subscriptions :: "effect list \<Rightarrow> topic list" where
  "subscriptions tr = foldl track [] tr"

text \<open>
  What can happen to a client: the application calls \<^verbatim>\<open>subscribe\<close> or
  \<^verbatim>\<open>unsubscribe\<close>, the oldest timer fires, the response to the oldest service call arrives,
  or an open topic subscription delivers a message. \<open>Inl NoSuchEvent\<close> says that the
  environment cannot produce the event in this state; \<open>Inl TypeError\<close> is the exception
  of the method.
\<close>

datatype event =
    Subscribe string cb
  | Unsubscribe string cb
  | TimerFires
  | ResponseArrives response
  | MessageArrives TFArray

definition step :: "world \<Rightarrow> event \<Rightarrow> error + world" where
  "step w ev =
     (case ev of
        Subscribe f c \<Rightarrow> map_sum id (commit w) (subscribe f c (client w))
      | Unsubscribe f c \<Rightarrow> map_sum id (commit w) (unsubscribe f c (client w))
      | TimerFires \<Rightarrow>
          (case timers w of
             [] \<Rightarrow> Inl NoSuchEvent
           | d # ds \<Rightarrow> Inr (commit (w\<lparr>timers := ds\<rparr>) (updateGoal (client w))))
      | ResponseArrives resp \<Rightarrow>
          (case in_flight w of
             [] \<Rightarrow> Inl NoSuchEvent
           | r # rs \<Rightarrow> Inr (commit (w\<lparr>in_flight := rs\<rparr>) (processResponse resp (client w))))
      | MessageArrives tf \<Rightarrow>
          (if subscriptions (trace w) = [] then Inl NoSuchEvent
           else map_sum id (commit w) (processFeedback tf (client w))))"

text \<open>
  A run ends at the first exception. What a program does after catching one is left out: by
  then \<^verbatim>\<open>processFeedback\<close> may have assigned \<^verbatim>\<open>transform\<close> to an object it inherited
  from \<^verbatim>\<open>Object.prototype\<close>, or to \<^verbatim>\<open>Object.prototype\<close> itself.
\<close>

fun run :: "world \<Rightarrow> event list \<Rightarrow> error + world" where
  "run w [] = Inr w"
| "run w (ev # evs) = (case step w ev of Inl e \<Rightarrow> Inl e | Inr w' \<Rightarrow> run w' evs)"

definition start :: "tfclient \<Rightarrow> world" where
  "start c = \<lparr>client = c, timers = [], in_flight = [], trace = []\<rparr>"

text \<open>The worlds a program can be in: constructed, then any events, none of which threw.\<close>

definition reachable :: "world \<Rightarrow> bool" where
  "reachable w = (\<exists>opts c evs. TFClient opts = Inr c \<and> run (start c) evs = Inr w)"

text \<open>A whole program: construct the client, then let the events happen.\<close>

definition program :: "options option \<Rightarrow> event list \<Rightarrow> error + world" where
  "program opts evs = (case TFClient opts of Inl e \<Rightarrow> Inl e | Inr c \<Rightarrow> run (start c) evs)"

text \<open>The options that name the connection and nothing else.\<close>

definition default_options :: "ros \<Rightarrow> options" where
  "default_options r =
     \<lparr>opt_ros = Some r, opt_fixedFrame = None, opt_angularThres = None, opt_transThres = None,
      opt_rate = None, opt_goalUpdateDelay = None, opt_topicTimeout = None\<rparr>"

subsection \<open>Vocabulary of the properties\<close>

text \<open>The timers an effect list sets and the service calls it issues.\<close>

definition timeouts :: "effect list \<Rightarrow> rat list" where
  "timeouts fx = concat (map (\<lambda>e. case e of SetTimeout d \<Rightarrow> [d] | _ \<Rightarrow> []) fx)"

definition calls :: "effect list \<Rightarrow> ServiceRequest list" where
  "calls fx = concat (map (\<lambda>e. case e of CallService r \<Rightarrow> [r] | _ \<Rightarrow> []) fx)"

text \<open>An effect that opens or closes no topic subscription.\<close>

definition quiet :: "effect \<Rightarrow> bool" where
  "quiet e = (case e of TopicSubscribe t \<Rightarrow> False | TopicUnsubscribe t \<Rightarrow> False | _ \<Rightarrow> True)"

text \<open>
  The frame map is tidy when its keys are distinct, every entry has a callback, and no entry
  hides a property of \<^verbatim>\<open>Object.prototype\<close>.
\<close>

definition tidy :: "tfclient \<Rightarrow> bool" where
  "tidy c =
     (distinct (map fst (frameInfos c)) \<and>
      (\<forall>k info. map_of (frameInfos c) k = Some info \<longrightarrow>
         cbs info \<noteq> [] \<and> k \<notin> set Object_prototype_keys))"

text \<open>
  The environment agrees with the client: a timer is pending exactly while
  \<^verbatim>\<open>goalUpdateRequested\<close> is set, and the open topic subscriptions are exactly
  \<^verbatim>\<open>currentTopic\<close>, with never more than one open at any point of the trace.
\<close>

definition consistent :: "world \<Rightarrow> bool" where
  "consistent w =
     (tidy (client w) \<and>
      length (timers w) = (if goalUpdateRequested (client w) then 1 else 0) \<and>
      subscriptions (trace w) = (case currentTopic (client w) of None \<Rightarrow> [] | Some t \<Rightarrow> [t]) \<and>
      (\<forall>n. length (subscriptions (take n (trace w))) \<le> 1))"


text \<open>The callbacks the frame map holds for a key; none when it has no entry.\<close>

definition callbacks :: "tfclient \<Rightarrow> string \<Rightarrow> cb list" where
  "callbacks c k = (case map_of (frameInfos c) k of None \<Rightarrow> [] | Some info \<Rightarrow> cbs info)"

text \<open>
  The callbacks registered for a frame after some events, in the spec's words and without
  any frame map: \<^verbatim>\<open>subscribe\<close> "appends callback to the frame's callback list",
  \<^verbatim>\<open>unsubscribe\<close> "removes the callback from its list by reference-equality lookup",
  once, and nothing else touches the lists.
\<close>

definition registered_step :: "(string \<Rightarrow> cb list) \<Rightarrow> event \<Rightarrow> string \<Rightarrow> cb list" where
  "registered_step m ev =
     (case ev of
        Subscribe f c \<Rightarrow> m(stripLeadingSlash f := m (stripLeadingSlash f) @ [c])
      | Unsubscribe f c \<Rightarrow> m(stripLeadingSlash f := remove1 c (m (stripLeadingSlash f)))
      | _ \<Rightarrow> m)"

definition registered :: "event list \<Rightarrow> string \<Rightarrow> cb list" where
  "registered evs = foldl registered_step (\<lambda>k. []) evs"

subsection \<open>Concrete values for the examples\<close>

definition demo_ros :: ros where
  "demo_ros = Ros ''ws://localhost:9090''"

definition demo_transform :: Transform where
  "demo_transform =
     \<lparr>translation = \<lparr>vx = 1, vy = 0, vz = 0\<rparr>, rotation = \<lparr>qx = 0, qy = 0, qz = 0, qw = 1\<rparr>\<rparr>"

text \<open>A client that tracks \<^verbatim>\<open>wheel\<close>, with a transform already seen, and \<^verbatim>\<open>odom\<close>,
  with none yet.\<close>

definition demo_client :: tfclient where
  "demo_client =
     \<lparr>ros = demo_ros, fixedFrame = ''/base_link'', angularThres = 2, transThres = 1 / 100,
      rate = 10, goalUpdateDelay = 50, topicTimeout = \<lparr>secs = 2, nsecs = 0\<rparr>,
      currentTopic = Some (Topic ''/tf_stream_1'' ''tf2_web_republisher/TFArray''),
      frameInfos = [(''wheel'', \<lparr>cbs = [1, 2], transform = Some demo_transform\<rparr>),
                    (''odom'', \<lparr>cbs = [3], transform = None\<rparr>)],
      goalUpdateRequested = False,
      serviceClient = Service ''/republish_tfs'' ''tf2_web_republisher/RepublishTFs'',
      needUpdate = False\<rparr>"

definition wheel_update :: TransformStamped where
  "wheel_update =
     \<lparr>child_frame_id = ''/wheel'', msg_translation = \<lparr>vx = 1, vy = 0, vz = 0\<rparr>,
      msg_rotation = \<lparr>qx = 0, qy = 0, qz = 0, qw = 1\<rparr>\<rparr>"

section \<open>Properties\<close>

subsection \<open>Doubles\<close>

lemma round53_0: "round53 0 = 0"
  by (simp add: round53_def)

lemma bitlen_2: "bitlen 2 = 2"
  by code_simp

lemma round53_2: "round53 2 = 2"
  by (simp add: round53_def exponent_def pow2_def round_half_even_def bitlen_2 Let_def)

text \<open>The default timeout is two seconds sharp; \<^verbatim>\<open>topicTimeout: 2.3\<close> loses a nanosecond
  to rounding, as it does in the program.\<close>

lemma topicTimeout_default: "\<lfloor>round53 (round53 (round53 2 - 2) * 1000000000)\<rfloor> = 0"
  by (simp add: round53_2 round53_0)

lemma bitlen_3: "bitlen 3 = 2"
  by (simp add: bitlen.simps)

lemma bitlen_299999999: "bitlen 299999999 = 29"
  by (simp add: bitlen.simps)

lemma round53_eq:
  assumes "x \<noteq> 0" and "exponent \<bar>x\<bar> = e" and "round_half_even (\<bar>x\<bar> / pow2 (e - 52)) = n"
  shows "round53 x = sgn x * of_int n * pow2 (e - 52)"
  using assms by (simp add: round53_def Let_def)

lemma round_half_even_down:
  assumes "\<lfloor>x\<rfloor> = f" and "x - of_int f < 1 / 2"
  shows "round_half_even x = f"
  using assms by (simp add: round_half_even_def Let_def)

lemma exponent_ge1:
  assumes "1 \<le> a" and "\<lfloor>a\<rfloor> = int n" and "bitlen n = Suc k"
  shows "exponent a = int k"
  using assms by (simp add: exponent_def)

lemma exponent_lt1:
  assumes "a < 1" and "\<lceil>1 / a\<rceil> = int (Suc n)" and "bitlen n = k"
  shows "exponent a = - int k"
  using assms by (simp add: exponent_def)

lemma round53_2_3: "round53 (23 / 10) = 2589569785738035 / 1125899906842624"
proof -
  have "\<lfloor>23 / 10 :: rat\<rfloor> = int 2"
    by (simp add: floor_eq_iff)
  then have "exponent (23 / 10) = int 1"
    by (rule exponent_ge1 [rotated]) (simp_all add: bitlen_2)
  then have e: "exponent \<bar>23 / 10\<bar> = 1" by simp
  have "\<lfloor>\<bar>23 / 10 :: rat\<bar> / pow2 (1 - 52)\<rfloor> = 5179139571476070"
    by (simp add: pow2_def floor_eq_iff)
  then have "round_half_even (\<bar>23 / 10\<bar> / pow2 (1 - 52)) = 5179139571476070"
    by (rule round_half_even_down) (simp add: pow2_def)
  from round53_eq [OF _ e this] show ?thesis
    by (simp add: pow2_def)
qed

lemma round53_frac:
  "round53 (337769972052787 / 1125899906842624) = 337769972052787 / 1125899906842624"
proof -
  let ?a = "337769972052787 / 1125899906842624 :: rat"
  have "\<lceil>1 / ?a\<rceil> = int (Suc 3)"
    by (simp add: ceiling_eq_iff)
  then have "exponent ?a = - int 2"
    by (rule exponent_lt1 [rotated]) (simp_all add: bitlen_3)
  then have e: "exponent \<bar>?a\<bar> = - 2" by simp
  have "\<lfloor>\<bar>?a\<bar> / pow2 (- 2 - 52)\<rfloor> = 5404319552844592"
    by (simp add: pow2_def floor_eq_iff)
  then have "round_half_even (\<bar>?a\<bar> / pow2 (- 2 - 52)) = 5404319552844592"
    by (rule round_half_even_down) (simp add: pow2_def)
  from round53_eq [OF _ e this] show ?thesis
    by (simp add: pow2_def)
qed

lemma round53_prod:
  "round53 (337769972052787000000000 / 1125899906842624) = 5033164799999997 / 16777216"
proof -
  let ?a = "337769972052787000000000 / 1125899906842624 :: rat"
  have "\<lfloor>?a\<rfloor> = int 299999999"
    by (simp add: floor_eq_iff)
  then have "exponent ?a = int 28"
    by (rule exponent_ge1 [rotated]) (simp_all add: bitlen_299999999)
  then have e: "exponent \<bar>?a\<bar> = 28" by simp
  have "\<lfloor>\<bar>?a\<bar> / pow2 (28 - 52)\<rfloor> = 5033164799999997"
    by (simp add: pow2_def floor_eq_iff)
  then have "round_half_even (\<bar>?a\<bar> / pow2 (28 - 52)) = 5033164799999997"
    by (rule round_half_even_down) (simp add: pow2_def)
  from round53_eq [OF _ e this] show ?thesis
    by (simp add: pow2_def)
qed

lemma topicTimeout_2_3:
  "\<lfloor>round53 (23 / 10)\<rfloor> = 2 \<and>
   \<lfloor>round53 (round53 (round53 (23 / 10) - 2) * 1000000000)\<rfloor> = 299999999"
proof -
  have a: "round53 (23 / 10) - 2 = 337769972052787 / 1125899906842624"
    by (simp add: round53_2_3)
  have p: "(337769972052787 / 1125899906842624 :: rat) * 1000000000 =
      337769972052787000000000 / 1125899906842624"
    by simp
  have b: "\<lfloor>round53 (23 / 10)\<rfloor> = 2"
    by (simp add: round53_2_3 floor_eq_iff)
  have c: "\<lfloor>5033164799999997 / 16777216 :: rat\<rfloor> = 299999999"
    by (simp add: floor_eq_iff)
  show ?thesis
    unfolding a round53_frac p round53_prod using b c by simp
qed

subsection \<open>Lists, lookups and the environment\<close>

lemma indexOf_ge_m1: "- 1 \<le> indexOf xs x"
  by (induction xs) (auto simp: Let_def)

lemma indexOf_nonneg_iff: "0 \<le> indexOf xs x \<longleftrightarrow> x \<in> set xs"
  using indexOf_ge_m1 [of _ x] by (induction xs) (auto simp: Let_def)

lemma splice1_indexOf: "x \<in> set xs \<Longrightarrow> splice1 (nat (indexOf xs x)) xs = remove1 x xs"
proof (induction xs)
  case Nil
  then show ?case by simp
next
  case (Cons y ys)
  show ?case
  proof (cases "y = x")
    case True
    then show ?thesis by (simp add: splice1_def)
  next
    case False
    with Cons.prems have mem: "x \<in> set ys" by simp
    then have nn: "0 \<le> indexOf ys x" by (simp add: indexOf_nonneg_iff)
    have "nat (indexOf ys x + 1) = Suc (nat (indexOf ys x))" using nn by simp
    with False nn Cons.IH [OF mem] show ?thesis
      by (simp add: splice1_def Let_def)
  qed
qed


lemma getFrameInfo_Undefined:
  "getFrameInfo fi k = Undefined \<longleftrightarrow> map_of fi k = None \<and> k \<notin> set Object_prototype_keys"
  by (simp add: getFrameInfo_def split: option.splits)

lemma getFrameInfo_Inherited:
  "getFrameInfo fi k = Inherited \<longleftrightarrow> map_of fi k = None \<and> k \<in> set Object_prototype_keys"
  by (simp add: getFrameInfo_def split: option.splits)

lemma trace_foldl_perform: "trace (foldl perform w fx) = trace w @ fx"
  by (induction fx arbitrary: w) (auto simp: perform_def split: effect.splits)

lemma client_foldl_perform: "client (foldl perform w fx) = client w"
  by (induction fx arbitrary: w) (auto simp: perform_def split: effect.splits)

lemma timers_foldl_perform: "timers (foldl perform w fx) = timers w @ timeouts fx"
  by (induction fx arbitrary: w) (auto simp: perform_def timeouts_def split: effect.splits)

lemma in_flight_foldl_perform: "in_flight (foldl perform w fx) = in_flight w @ calls fx"
  by (induction fx arbitrary: w) (auto simp: perform_def calls_def split: effect.splits)

lemma commit_simps:
  "client (commit w (fx, c)) = c"
  "trace (commit w (fx, c)) = trace w @ fx"
  "timers (commit w (fx, c)) = timers w @ timeouts fx"
  "in_flight (commit w (fx, c)) = in_flight w @ calls fx"
  by (simp_all add: commit_def client_foldl_perform trace_foldl_perform
      timers_foldl_perform in_flight_foldl_perform)

lemma subscriptions_append: "subscriptions (tr @ fx) = foldl track (subscriptions tr) fx"
  by (simp add: subscriptions_def)

lemma track_quiet: "list_all quiet fx \<Longrightarrow> foldl track s fx = s"
  by (induction fx arbitrary: s) (auto simp: quiet_def track_def split: effect.splits)

lemma list_all_take: "list_all P xs \<Longrightarrow> list_all P (take n xs)"
  by (auto simp: list_all_iff dest: in_set_takeD)

lemma subscriptions_take_quiet:
  assumes "list_all quiet fx"
  shows "subscriptions (take n (tr @ fx)) = subscriptions (take n tr)"
proof -
  have "list_all quiet (take (n - length tr) fx)"
    using assms by (rule list_all_take)
  then show ?thesis
    by (simp add: subscriptions_append track_quiet)
qed

lemma run_append:
  "run w (xs @ ys) = (case run w xs of Inl e \<Rightarrow> Inl e | Inr w' \<Rightarrow> run w' ys)"
  by (induction xs arbitrary: w) (auto split: sum.splits)

subsection \<open>The frame map stays tidy\<close>

lemma tidy_subscribe:
  assumes "tidy this" "subscribe f c this = Inr (fx, this')"
  shows "tidy this'"
  using assms
  by (auto simp: subscribe_def tidy_def Let_def getFrameInfo_def AList.distinct_update
      AList.update_conv' map_add_def dest: map_of_SomeD
      split: property.splits option.splits if_splits)


lemma tidy_unsubscribe:
  assumes "tidy this" "unsubscribe f c this = Inr (fx, this')"
  shows "tidy this'"
  using assms
  by (auto simp: unsubscribe_def tidy_def Let_def getFrameInfo_def AList.distinct_update
      AList.distinct_delete AList.update_conv' AList.delete_conv'
      split: property.splits option.splits if_splits)

lemma tidy_processTransform:
  assumes "tidy this" "processTransform tr this = Inr (fx, this')"
  shows "tidy this'"
  using assms
  by (auto simp: processTransform_def tidy_def Let_def getFrameInfo_def AList.distinct_update
      AList.update_conv'
      split: property.splits option.splits if_splits)

lemma tidy_forEach_transform:
  "tidy this \<Longrightarrow> forEach_transform trs this = Inr (fx, this') \<Longrightarrow> tidy this'"
proof (induction trs arbitrary: this fx)
  case Nil
  then show ?case by simp
next
  case (Cons tr trs)
  then show ?case
    by (auto split: sum.splits prod.splits dest: tidy_processTransform)
qed

lemma subscribe_effects:
  assumes "subscribe f c this = Inr (fx, this')"
  shows "list_all quiet fx" and "calls fx = []"
    and "currentTopic this' = currentTopic this"
    and "length (timeouts fx) + (if goalUpdateRequested this then 1 else 0)
           = (if goalUpdateRequested this' then 1 else 0)"
  using assms
  by (auto simp: subscribe_def Let_def quiet_def calls_def timeouts_def
      split: property.splits option.splits if_splits)

lemma unsubscribe_effects:
  assumes "unsubscribe f c this = Inr (fx, this')"
  shows "fx = []" and "currentTopic this' = currentTopic this"
    and "goalUpdateRequested this' = goalUpdateRequested this"
  using assms
  by (auto simp: unsubscribe_def Let_def split: property.splits option.splits if_splits)

lemma processTransform_effects:
  assumes "processTransform tr this = Inr (fx, this')"
  shows "list_all quiet fx" and "calls fx = []" and "timeouts fx = []"
    and "currentTopic this' = currentTopic this"
    and "goalUpdateRequested this' = goalUpdateRequested this"
  using assms
  by (auto simp: processTransform_def Let_def quiet_def calls_def timeouts_def list_all_iff
      split: property.splits option.splits if_splits)

lemma forEach_transform_effects:
  "forEach_transform trs this = Inr (fx, this') \<Longrightarrow>
   list_all quiet fx \<and> calls fx = [] \<and> timeouts fx = [] \<and>
   currentTopic this' = currentTopic this \<and>
   goalUpdateRequested this' = goalUpdateRequested this"
proof (induction trs arbitrary: this fx)
  case Nil
  then show ?case by (simp add: calls_def timeouts_def)
next
  case (Cons tr trs)
  from Cons.prems obtain fx1 this1 fx2 where
    a: "processTransform tr this = Inr (fx1, this1)" and
    b: "forEach_transform trs this1 = Inr (fx2, this')" and
    c: "fx = fx1 @ fx2"
    by (auto split: sum.splits prod.splits)
  from processTransform_effects [OF a] Cons.IH [OF b] c show ?case
    by (simp add: calls_def timeouts_def)
qed


lemma consistent_quiet:
  assumes w: "consistent w"
    and q: "list_all quiet fx"
    and t: "tidy c"
    and ct: "currentTopic c = currentTopic (client w)"
    and tm: "length (timers w') = (if goalUpdateRequested c then 1 else 0)"
    and cl: "client w' = c"
    and tr: "trace w' = trace w @ fx"
  shows "consistent w'"
proof -
  have "take (length (trace w) + length fx) (trace w @ fx) = trace w @ fx" by simp
  then have full: "subscriptions (trace w @ fx) = subscriptions (trace w)"
    using subscriptions_take_quiet [OF q, of "length (trace w) + length fx" "trace w"] by simp
  have pre: "\<forall>n. length (subscriptions (take n (trace w'))) \<le> 1"
  proof
    fix n
    have "subscriptions (take n (trace w')) = subscriptions (take n (trace w))"
      unfolding tr by (rule subscriptions_take_quiet [OF q])
    with w show "length (subscriptions (take n (trace w'))) \<le> 1"
      by (simp add: consistent_def)
  qed
  have cur: "subscriptions (trace w') = (case currentTopic (client w') of None \<Rightarrow> [] | Some t \<Rightarrow> [t])"
    using w full by (simp add: tr cl ct consistent_def)
  show ?thesis
    unfolding consistent_def using pre cur t tm by (simp add: cl)
qed

lemma consistent_Subscribe:
  assumes w: "consistent w" and s: "step w (Subscribe f c) = Inr w'"
  shows "consistent w'"
proof -
  from s obtain fx this' where r: "subscribe f c (client w) = Inr (fx, this')"
    and w': "w' = commit w (fx, this')"
    by (cases "subscribe f c (client w)") (auto simp: step_def)
  from w have tw: "tidy (client w)"
    and lw: "length (timers w) = (if goalUpdateRequested (client w) then 1 else 0)"
    by (simp_all add: consistent_def)
  show ?thesis
  proof (rule consistent_quiet [OF w subscribe_effects(1) [OF r] tidy_subscribe [OF tw r]
        subscribe_effects(3) [OF r]])
    show "length (timers w') = (if goalUpdateRequested this' then 1 else 0)"
      using subscribe_effects(4) [OF r] lw by (simp add: w' commit_simps)
  qed (simp_all add: w' commit_simps)
qed

lemma consistent_Unsubscribe:
  assumes w: "consistent w" and s: "step w (Unsubscribe f c) = Inr w'"
  shows "consistent w'"
proof -
  from s obtain fx this' where r: "unsubscribe f c (client w) = Inr (fx, this')"
    and w': "w' = commit w (fx, this')"
    by (cases "unsubscribe f c (client w)") (auto simp: step_def)
  from w have tw: "tidy (client w)"
    and lw: "length (timers w) = (if goalUpdateRequested (client w) then 1 else 0)"
    by (simp_all add: consistent_def)
  have fx: "fx = []" by (rule unsubscribe_effects(1) [OF r])
  show ?thesis
  proof (rule consistent_quiet [OF w _ tidy_unsubscribe [OF tw r] unsubscribe_effects(2) [OF r]])
    show "list_all quiet fx" by (simp add: fx)
    show "length (timers w') = (if goalUpdateRequested this' then 1 else 0)"
      using unsubscribe_effects(3) [OF r] lw by (simp add: w' commit_simps fx timeouts_def)
  qed (simp_all add: w' commit_simps)
qed

lemma consistent_MessageArrives:
  assumes w: "consistent w" and s: "step w (MessageArrives tf) = Inr w'"
  shows "consistent w'"
proof -
  from s obtain fx this' where r: "forEach_transform (transforms tf) (client w) = Inr (fx, this')"
    and w': "w' = commit w (fx, this')"
    by (cases "forEach_transform (transforms tf) (client w)")
       (auto simp: step_def processFeedback_def split: if_splits)
  from w have tw: "tidy (client w)"
    and lw: "length (timers w) = (if goalUpdateRequested (client w) then 1 else 0)"
    by (simp_all add: consistent_def)
  note e = forEach_transform_effects [OF r]
  show ?thesis
  proof (rule consistent_quiet [OF w _ tidy_forEach_transform [OF tw r]])
    show "list_all quiet fx" using e by simp
    show "currentTopic this' = currentTopic (client w)" using e by simp
    show "length (timers w') = (if goalUpdateRequested this' then 1 else 0)"
      using e lw by (simp add: w' commit_simps)
  qed (simp_all add: w' commit_simps)
qed

lemma consistent_TimerFires:
  assumes w: "consistent w" and s: "step w TimerFires = Inr w'"
  shows "consistent w'"
proof -
  from s obtain d ds where tm: "timers w = d # ds"
    and w': "w' = commit (w\<lparr>timers := ds\<rparr>) (updateGoal (client w))"
    by (cases "timers w") (auto simp: step_def)
  from w tm have ds: "ds = []"
    by (simp add: consistent_def split: if_splits)
  show ?thesis
  proof (rule consistent_quiet [OF w])
    show "list_all quiet [CallService \<lparr>source_frames = for_in_keys (frameInfos (client w)),
        target_frame = fixedFrame (client w), angular_thres = angularThres (client w),
        trans_thres = transThres (client w), req_rate = rate (client w),
        timeout = topicTimeout (client w)\<rparr>]"
      by (simp add: quiet_def)
    show "tidy (client w\<lparr>goalUpdateRequested := False\<rparr>)"
      using w by (simp add: consistent_def tidy_def)
    show "length (timers w') = (if goalUpdateRequested (client w\<lparr>goalUpdateRequested := False\<rparr>) then 1 else 0)"
      by (simp add: w' updateGoal_def commit_simps ds timeouts_def)
  qed (simp_all add: w' updateGoal_def commit_simps)
qed

lemma take_2_cases: "take m [a, b] = [] \<or> take m [a, b] = [a] \<or> take m [a, b] = [a, b]"
  by (cases m; simp) (cases "m - 1"; simp)

lemma take_3_cases:
  "take m [a, b, c] = [] \<or> take m [a, b, c] = [a] \<or> take m [a, b, c] = [a, b]
     \<or> take m [a, b, c] = [a, b, c]"
proof (cases m)
  case 0
  then show ?thesis by simp
next
  case (Suc k)
  with take_2_cases [of k b c] show ?thesis by auto
qed


lemma processResponse_prefixes:
  assumes cur: "subscriptions tr = (case currentTopic this of None \<Rightarrow> [] | Some t \<Rightarrow> [t])"
    and r: "processResponse resp this = (fx, this')"
  shows "length (foldl track (subscriptions tr) (take m fx)) \<le> 1"
proof (cases "currentTopic this")
  case None
  with r have fx: "fx = [RosTopic (Topic (topic_name resp) ''tf2_web_republisher/TFArray''),
      TopicSubscribe (Topic (topic_name resp) ''tf2_web_republisher/TFArray'')]"
    by (auto simp: processResponse_def Let_def)
  from cur None have s: "subscriptions tr = []" by simp
  from take_2_cases [of m "RosTopic (Topic (topic_name resp) ''tf2_web_republisher/TFArray'')"
      "TopicSubscribe (Topic (topic_name resp) ''tf2_web_republisher/TFArray'')"]
  show ?thesis
    unfolding fx s by (auto simp: track_def)
next
  case (Some old)
  with r have fx: "fx = [TopicUnsubscribe old,
      RosTopic (Topic (topic_name resp) ''tf2_web_republisher/TFArray''),
      TopicSubscribe (Topic (topic_name resp) ''tf2_web_republisher/TFArray'')]"
    by (auto simp: processResponse_def Let_def)
  from cur Some have s: "subscriptions tr = [old]" by simp
  from take_3_cases [of m "TopicUnsubscribe old"
      "RosTopic (Topic (topic_name resp) ''tf2_web_republisher/TFArray'')"
      "TopicSubscribe (Topic (topic_name resp) ''tf2_web_republisher/TFArray'')"]
  show ?thesis
    unfolding fx s by (auto simp: track_def)
qed

lemma processResponse_subscriptions:
  assumes cur: "subscriptions tr = (case currentTopic this of None \<Rightarrow> [] | Some t \<Rightarrow> [t])"
    and r: "processResponse resp this = (fx, this')"
  shows "subscriptions (tr @ fx) = [Topic (topic_name resp) ''tf2_web_republisher/TFArray'']"
  using assms
  by (cases "currentTopic this")
     (auto simp: processResponse_def Let_def subscriptions_append track_def)

lemma consistent_ResponseArrives:
  assumes w: "consistent w" and s: "step w (ResponseArrives resp) = Inr w'"
  shows "consistent w'"
proof -
  obtain fx this' where r: "processResponse resp (client w) = (fx, this')"
    by (cases "processResponse resp (client w)")
  from s r obtain q qs where fl: "in_flight w = q # qs"
    and w': "w' = commit (w\<lparr>in_flight := qs\<rparr>) (fx, this')"
    by (cases "in_flight w") (auto simp: step_def)
  from w have cur: "subscriptions (trace w) =
      (case currentTopic (client w) of None \<Rightarrow> [] | Some t \<Rightarrow> [t])"
    and old: "\<And>n. length (subscriptions (take n (trace w))) \<le> 1"
    and tw: "tidy (client w)"
    and lw: "length (timers w) = (if goalUpdateRequested (client w) then 1 else 0)"
    by (simp_all add: consistent_def)
  from r have this': "this' = (client w)\<lparr>currentTopic :=
      Some (Topic (topic_name resp) ''tf2_web_republisher/TFArray'')\<rparr>"
    and tmo: "timeouts fx = []"
    by (auto simp: processResponse_def Let_def timeouts_def split: option.splits)
  have tr: "trace w' = trace w @ fx" by (simp add: w' commit_simps)
  have pre: "\<forall>n. length (subscriptions (take n (trace w'))) \<le> 1"
  proof
    fix n
    show "length (subscriptions (take n (trace w'))) \<le> 1"
    proof (cases "n \<le> length (trace w)")
      case True
      then show ?thesis using old [of n] by (simp add: tr)
    next
      case False
      then have "take n (trace w') = trace w @ take (n - length (trace w)) fx"
        by (simp add: tr)
      then show ?thesis
        using processResponse_prefixes [OF cur r, of "n - length (trace w)"]
        by (simp add: subscriptions_append)
    qed
  qed
  have now: "subscriptions (trace w') =
      (case currentTopic (client w') of None \<Rightarrow> [] | Some t \<Rightarrow> [t])"
    using processResponse_subscriptions [OF cur r]
    by (simp add: tr w' commit_simps this')
  have "tidy (client w')" using tw by (simp add: w' commit_simps this' tidy_def)
  moreover have "length (timers w') = (if goalUpdateRequested (client w') then 1 else 0)"
    using lw by (simp add: w' commit_simps this' tmo)
  ultimately show ?thesis
    unfolding consistent_def using pre now by simp
qed

lemma consistent_step: "consistent w \<Longrightarrow> step w ev = Inr w' \<Longrightarrow> consistent w'"
  by (cases ev)
     (auto intro: consistent_Subscribe consistent_Unsubscribe consistent_TimerFires
        consistent_ResponseArrives consistent_MessageArrives)

lemma consistent_run: "consistent w \<Longrightarrow> run w evs = Inr w' \<Longrightarrow> consistent w'"
proof (induction evs arbitrary: w)
  case Nil
  then show ?case by simp
next
  case (Cons ev evs)
  then show ?case
    by (auto split: sum.splits dest: consistent_step)
qed

lemma consistent_start: "TFClient opts = Inr c \<Longrightarrow> consistent (start c)"
  by (auto simp: TFClient_def Let_def start_def consistent_def tidy_def subscriptions_def
      split: option.splits)

lemma reachable_consistent: "reachable w \<Longrightarrow> consistent w"
  unfolding reachable_def using consistent_start consistent_run by blast

subsection \<open>The keys of the frame map\<close>

lemma set_for_in_keys: "set (for_in_keys fi) = fst ` set fi"
  by (auto simp: for_in_keys_def)




lemma keys_subscribe_untracked:
  assumes "subscribe f c this = Inr (fx, this')"
    and "map_of (frameInfos this) (stripLeadingSlash f) = None"
  shows "map fst (frameInfos this') = map fst (frameInfos this) @ [stripLeadingSlash f]"
  using assms by (auto simp: subscribe_def getFrameInfo_def Let_def split: if_splits)








subsection \<open>What the methods do on one entry\<close>

lemma unsubscribe_noop:
  assumes "getFrameInfo (frameInfos this) (stripLeadingSlash frameID) = Undefined \<or>
           (\<exists>info. getFrameInfo (frameInfos this) (stripLeadingSlash frameID) = Own info \<and>
              callback \<notin> set (cbs info))"
  shows "unsubscribe frameID callback this = Inr ([], this)"
  using assms indexOf_nonneg_iff [of _ callback]
  by (auto simp: unsubscribe_def Let_def)

lemma processTransform_tracked:
  assumes "map_of (frameInfos this) (stripLeadingSlash (child_frame_id tr)) = Some info"
  shows "processTransform tr this =
           Inr (map (\<lambda>cb. Callback cb (new_Transform (msg_translation tr) (msg_rotation tr))) (cbs info),
                this\<lparr>frameInfos := AList.update (stripLeadingSlash (child_frame_id tr))
                   (info\<lparr>transform := Some (new_Transform (msg_translation tr) (msg_rotation tr))\<rparr>)
                   (frameInfos this)\<rparr>)"
  using assms by (simp add: processTransform_def getFrameInfo_def Let_def)

lemma processTransform_untracked:
  assumes "getFrameInfo (frameInfos this) (stripLeadingSlash (child_frame_id tr)) = Undefined"
  shows "processTransform tr this = Inr ([], this)"
  using assms by (simp add: processTransform_def Let_def)

subsection \<open>The debounce timer\<close>

lemma calls_append: "calls (a @ b) = calls a @ calls b"
  by (simp add: calls_def)

lemma reachable_program: "program opts evs = Inr w \<Longrightarrow> reachable w"
  by (auto simp: program_def reachable_def split: sum.splits)

lemma program_snoc: "program opts evs = Inr w \<Longrightarrow> program opts (evs @ [ev]) = step w ev"
  by (auto simp: program_def run_append split: sum.splits)

lemma step_Subscribe_untracked:
  assumes w: "consistent w"
    and s: "step w (Subscribe f c) = Inr w1"
    and u: "map_of (frameInfos (client w)) (stripLeadingSlash f) = None"
  shows "map fst (frameInfos (client w1)) = map fst (frameInfos (client w)) @ [stripLeadingSlash f]"
    and "goalUpdateRequested (client w1)"
    and "timers w1 = (if goalUpdateRequested (client w) then timers w else [goalUpdateDelay (client w)])"
    and "in_flight w1 = in_flight w"
    and "calls (trace w1) = calls (trace w)"
proof -
  from s obtain fx this' where r: "subscribe f c (client w) = Inr (fx, this')"
    and w1: "w1 = commit w (fx, this')"
    by (cases "subscribe f c (client w)") (auto simp: step_def)
  from w have lw: "length (timers w) = (if goalUpdateRequested (client w) then 1 else 0)"
    by (simp add: consistent_def)
  from keys_subscribe_untracked [OF r u]
  show "map fst (frameInfos (client w1)) = map fst (frameInfos (client w)) @ [stripLeadingSlash f]"
    by (simp add: w1 commit_simps)
  from r u show "goalUpdateRequested (client w1)"
    by (auto simp: w1 commit_simps subscribe_def getFrameInfo_def Let_def split: if_splits)
  from r u lw
  show "timers w1 = (if goalUpdateRequested (client w) then timers w else [goalUpdateDelay (client w)])"
    by (auto simp: w1 commit_simps subscribe_def getFrameInfo_def Let_def timeouts_def
        split: if_splits)
  from subscribe_effects(2) [OF r] show "in_flight w1 = in_flight w"
    by (simp add: w1 commit_simps)
  from subscribe_effects(2) [OF r] show "calls (trace w1) = calls (trace w)"
    by (simp add: w1 commit_simps calls_append)
qed

lemma step_Subscribe_pending:
  assumes "goalUpdateRequested (client w)" and "step w (Subscribe f c) = Inr w3"
  shows "timers w3 = timers w"
proof -
  from assms(2) obtain fx this' where r: "subscribe f c (client w) = Inr (fx, this')"
    and w3: "w3 = commit w (fx, this')"
    by (cases "subscribe f c (client w)") (auto simp: step_def)
  from r assms(1) have "timeouts fx = []"
    by (auto simp: subscribe_def Let_def timeouts_def split: property.splits option.splits)
  then show ?thesis by (simp add: w3 commit_simps)
qed

lemma step_TimerFires_pending:
  assumes w: "consistent w" and g: "goalUpdateRequested (client w)"
  shows "\<exists>w2 req. step w TimerFires = Inr w2 \<and> timers w2 = [] \<and>
           in_flight w2 = in_flight w @ [req] \<and>
           calls (trace w2) = calls (trace w) @ [req] \<and>
           set (source_frames req) = fst ` set (frameInfos (client w)) \<and>
           target_frame req = fixedFrame (client w)"
proof -
  from w g have "length (timers w) = 1" by (simp add: consistent_def)
  then obtain d where d: "timers w = [d]"
    by (cases "timers w") auto
  then show ?thesis
    by (simp add: step_def updateGoal_def commit_simps timeouts_def calls_def set_for_in_keys)
qed

lemma run_subscribes:
  "consistent w \<Longrightarrow>
   run w (map (\<lambda>(f, c). Subscribe f c) cs) = Inr w1 \<Longrightarrow>
   distinct (map (\<lambda>p. stripLeadingSlash (fst p)) cs) \<Longrightarrow>
   \<forall>(f, c) \<in> set cs. map_of (frameInfos (client w)) (stripLeadingSlash f) = None \<Longrightarrow>
   map fst (frameInfos (client w1)) = map fst (frameInfos (client w)) @ map (\<lambda>p. stripLeadingSlash (fst p)) cs \<and>
   in_flight w1 = in_flight w \<and> calls (trace w1) = calls (trace w) \<and>
   (cs \<noteq> [] \<longrightarrow> goalUpdateRequested (client w1)) \<and> consistent w1"
proof (induction cs arbitrary: w)
  case Nil
  then show ?case by simp
next
  case (Cons p cs)
  obtain f c where p: "p = (f, c)" by (cases p)
  from Cons.prems(2) obtain wa where s: "step w (Subscribe f c) = Inr wa"
    and r: "run wa (map (\<lambda>(f, c). Subscribe f c) cs) = Inr w1"
    by (auto simp: p split: sum.splits)
  from Cons.prems(4) have u: "map_of (frameInfos (client w)) (stripLeadingSlash f) = None"
    by (simp add: p)
  note a = step_Subscribe_untracked [OF Cons.prems(1) s u]
  have ca: "consistent wa" by (rule consistent_step [OF Cons.prems(1) s])
  have da: "distinct (map (\<lambda>p. stripLeadingSlash (fst p)) cs)" using Cons.prems(3) by simp
  have ua: "\<forall>(g, d) \<in> set cs. map_of (frameInfos (client wa)) (stripLeadingSlash g) = None"
  proof (clarify)
    fix g d assume gd: "(g, d) \<in> set cs"
    with Cons.prems(4) have "map_of (frameInfos (client w)) (stripLeadingSlash g) = None"
      by auto
    then have 1: "stripLeadingSlash g \<notin> set (map fst (frameInfos (client w)))"
      by (simp add: map_of_eq_None_iff)
    from gd Cons.prems(3) have 2: "stripLeadingSlash g \<noteq> stripLeadingSlash f"
      by (force simp: p)
    from 1 2 have "stripLeadingSlash g \<notin> set (map fst (frameInfos (client wa)))"
      unfolding a(1) by simp
    then show "map_of (frameInfos (client wa)) (stripLeadingSlash g) = None"
      by (simp add: map_of_eq_None_iff)
  qed
  note ih = Cons.IH [OF ca r da ua]
  have g: "goalUpdateRequested (client w1)"
  proof (cases "cs = []")
    case True
    with r a(2) show ?thesis by simp
  next
    case False
    with ih show ?thesis by simp
  qed
  from ih a g show ?case by (simp add: p)
qed

subsection \<open>Where the methods return\<close>

lemma subscribe_returns:
  "stripLeadingSlash f \<notin> set Object_prototype_keys \<Longrightarrow> \<exists>r. subscribe f c this = Inr r"
  by (simp add: subscribe_def getFrameInfo_def Let_def split: option.splits)

lemma unsubscribe_returns:
  "stripLeadingSlash f \<notin> set Object_prototype_keys \<Longrightarrow> \<exists>r. unsubscribe f c this = Inr r"
  by (simp add: unsubscribe_def getFrameInfo_def Let_def split: option.splits)

lemma processTransform_returns:
  "stripLeadingSlash (child_frame_id tr) \<notin> set Object_prototype_keys \<Longrightarrow>
   \<exists>r. processTransform tr this = Inr r"
  by (simp add: processTransform_def getFrameInfo_def Let_def split: option.splits)

lemma forEach_transform_returns:
  "\<forall>tr \<in> set trs. stripLeadingSlash (child_frame_id tr) \<notin> set Object_prototype_keys \<Longrightarrow>
   \<exists>r. forEach_transform trs this = Inr r"
proof (induction trs arbitrary: this)
  case Nil
  then show ?case by simp
next
  case (Cons tr trs)
  from Cons.prems have "stripLeadingSlash (child_frame_id tr) \<notin> set Object_prototype_keys"
    by simp
  from processTransform_returns [OF this] obtain fx this1 where
    a: "processTransform tr this = Inr (fx, this1)" by fastforce
  from Cons.prems have "\<forall>tr \<in> set trs. stripLeadingSlash (child_frame_id tr) \<notin> set Object_prototype_keys"
    by simp
  from Cons.IH [OF this] obtain fx' this2 where
    b: "forEach_transform trs this1 = Inr (fx', this2)" by fastforce
  from a b show ?case by simp
qed

lemma step_Subscribe_returns:
  "getFrameInfo (frameInfos (client w)) (stripLeadingSlash f) = Undefined \<Longrightarrow>
   \<exists>w1. step w (Subscribe f c) = Inr w1"
  by (simp add: step_def subscribe_def Let_def)

lemma run_subscribes_returns:
  "\<forall>(f, c) \<in> set cs. stripLeadingSlash f \<notin> set Object_prototype_keys \<Longrightarrow>
   \<exists>w1. run w (map (\<lambda>(f, c). Subscribe f c) cs) = Inr w1"
proof (induction cs arbitrary: w)
  case Nil
  then show ?case by simp
next
  case (Cons p cs)
  obtain f c where p: "p = (f, c)" by (cases p)
  from Cons.prems have "stripLeadingSlash f \<notin> set Object_prototype_keys" by (simp add: p)
  from subscribe_returns [OF this] obtain r where "subscribe f c (client w) = Inr r" by blast
  then obtain wa where s: "step w (Subscribe f c) = Inr wa" by (simp add: step_def)
  from Cons.prems have "\<forall>(f, c) \<in> set cs. stripLeadingSlash f \<notin> set Object_prototype_keys"
    by simp
  from Cons.IH [OF this] obtain w1 where "run wa (map (\<lambda>(f, c). Subscribe f c) cs) = Inr w1"
    by blast
  with s show ?case by (simp add: p)
qed

subsection \<open>The callbacks and the history of calls\<close>

lemma callbacks_Some: "map_of (frameInfos c) k = Some info \<Longrightarrow> callbacks c k = cbs info"
  by (simp add: callbacks_def)

lemma callbacks_None: "map_of (frameInfos c) k = None \<Longrightarrow> callbacks c k = []"
  by (simp add: callbacks_def)

lemma unsubscribe_Own:
  assumes m: "map_of (frameInfos this) (stripLeadingSlash f) = Some info"
  shows "unsubscribe f c this =
           Inr ([], if c \<in> set (cbs info)
                    then this\<lparr>frameInfos :=
                           (if remove1 c (cbs info) = []
                            then AList.delete (stripLeadingSlash f) (frameInfos this)
                            else AList.update (stripLeadingSlash f)
                                   (info\<lparr>cbs := remove1 c (cbs info)\<rparr>) (frameInfos this)),
                         needUpdate := True\<rparr>
                    else this)"
proof (cases "c \<in> set (cbs info)")
  case True
  then have "0 \<le> indexOf (cbs info) c" by (simp add: indexOf_nonneg_iff)
  with True m show ?thesis
    by (simp add: unsubscribe_def getFrameInfo_def Let_def splice1_indexOf)
next
  case False
  then have "\<not> 0 \<le> indexOf (cbs info) c" by (simp add: indexOf_nonneg_iff)
  with False m show ?thesis
    by (simp add: unsubscribe_def getFrameInfo_def Let_def)
qed

lemma callbacks_subscribe:
  assumes "subscribe f c this = Inr (fx, this')"
  shows "callbacks this' =
           (callbacks this)(stripLeadingSlash f := callbacks this (stripLeadingSlash f) @ [c])"
  using assms
  by (auto simp: subscribe_def getFrameInfo_def Let_def callbacks_def fun_eq_iff
      AList.update_conv' map_add_def
      split: option.splits if_splits)

lemma callbacks_unsubscribe:
  assumes "unsubscribe f c this = Inr (fx, this')"
  shows "callbacks this' =
           (callbacks this)(stripLeadingSlash f := remove1 c (callbacks this (stripLeadingSlash f)))"
proof (cases "map_of (frameInfos this) (stripLeadingSlash f)")
  case None
  with assms have "this' = this"
    by (auto simp: unsubscribe_def getFrameInfo_def Let_def split: if_splits)
  with None show ?thesis
    by (auto simp: callbacks_def fun_eq_iff)
next
  case (Some info)
  from assms unsubscribe_Own [OF Some, of c] have
    "this' = (if c \<in> set (cbs info)
                    then this\<lparr>frameInfos :=
                           (if remove1 c (cbs info) = []
                            then AList.delete (stripLeadingSlash f) (frameInfos this)
                            else AList.update (stripLeadingSlash f)
                                   (info\<lparr>cbs := remove1 c (cbs info)\<rparr>) (frameInfos this)),
                         needUpdate := True\<rparr>
                    else this)"
    by simp
  with Some show ?thesis
    by (auto simp: callbacks_def fun_eq_iff AList.update_conv' AList.delete_conv'
        remove1_idem)
qed

lemma callbacks_processTransform:
  assumes "processTransform tr this = Inr (fx, this')"
  shows "callbacks this' = callbacks this"
  using assms
  by (auto simp: processTransform_def getFrameInfo_def Let_def callbacks_def fun_eq_iff
      AList.update_conv' split: option.splits if_splits)

lemma callbacks_forEach_transform:
  "forEach_transform trs this = Inr (fx, this') \<Longrightarrow> callbacks this' = callbacks this"
proof (induction trs arbitrary: this fx)
  case Nil
  then show ?case by simp
next
  case (Cons tr trs)
  from Cons.prems obtain fx1 this1 fx2 where
    a: "processTransform tr this = Inr (fx1, this1)" and
    b: "forEach_transform trs this1 = Inr (fx2, this')"
    by (auto split: sum.splits prod.splits)
  from callbacks_processTransform [OF a] Cons.IH [OF b] show ?case by simp
qed

lemma callbacks_step:
  assumes "step w ev = Inr w'"
  shows "callbacks (client w') = registered_step (callbacks (client w)) ev"
proof (cases ev)
  case (Subscribe f c)
  with assms obtain fx this' where r: "subscribe f c (client w) = Inr (fx, this')"
    and w': "w' = commit w (fx, this')"
    by (cases "subscribe f c (client w)") (auto simp: step_def)
  from callbacks_subscribe [OF r] show ?thesis
    by (simp add: w' commit_simps Subscribe registered_step_def)
next
  case (Unsubscribe f c)
  with assms obtain fx this' where r: "unsubscribe f c (client w) = Inr (fx, this')"
    and w': "w' = commit w (fx, this')"
    by (cases "unsubscribe f c (client w)") (auto simp: step_def)
  from callbacks_unsubscribe [OF r] show ?thesis
    by (simp add: w' commit_simps Unsubscribe registered_step_def)
next
  case TimerFires
  with assms show ?thesis
    by (auto simp: step_def updateGoal_def commit_simps registered_step_def callbacks_def
        split: list.splits)
next
  case (ResponseArrives resp)
  with assms show ?thesis
    by (auto simp: step_def processResponse_def Let_def commit_simps registered_step_def
        callbacks_def split: list.splits)
next
  case (MessageArrives tf)
  with assms obtain fx this' where
    r: "forEach_transform (transforms tf) (client w) = Inr (fx, this')"
    and w': "w' = commit w (fx, this')"
    by (cases "forEach_transform (transforms tf) (client w)")
       (auto simp: step_def processFeedback_def split: if_splits)
  from callbacks_forEach_transform [OF r] show ?thesis
    by (simp add: w' commit_simps MessageArrives registered_step_def)
qed

lemma callbacks_run:
  "run w evs = Inr w' \<Longrightarrow>
   callbacks (client w') = foldl registered_step (callbacks (client w)) evs"
proof (induction evs arbitrary: w)
  case Nil
  then show ?case by simp
next
  case (Cons ev evs)
  from Cons.prems obtain w1 where s: "step w ev = Inr w1" and r: "run w1 evs = Inr w'"
    by (auto split: sum.splits)
  from callbacks_step [OF s] Cons.IH [OF r] show ?case by simp
qed

lemma callbacks_program:
  assumes "program opts evs = Inr w"
  shows "callbacks (client w) = registered evs"
proof -
  from assms obtain c0 where c0: "TFClient opts = Inr c0" and r: "run (start c0) evs = Inr w"
    by (auto simp: program_def split: sum.splits)
  from c0 have "frameInfos c0 = []"
    by (auto simp: TFClient_def Let_def split: option.splits)
  then have "callbacks (client (start c0)) = (\<lambda>k. [])"
    by (simp add: callbacks_def start_def fun_eq_iff)
  with callbacks_run [OF r] show ?thesis by (simp add: registered_def)
qed

subsection \<open>Evaluating the definitions\<close>

lemmas eval_defs = program_def default_options_def TFClient_def or_num_def or_str_def start_def
  step_def subscribe_def unsubscribe_def stripLeadingSlash_def getFrameInfo_def
  Object_prototype_keys_def commit_def perform_def updateGoal_def processResponse_def
  processFeedback_def processTransform_def new_Transform_def
  for_in_keys_def is_array_index_def is_digit_def decimal_def splice1_def
  timeouts_def calls_def subscriptions_def track_def Let_def round53_0 round53_2

section \<open>The claims\<close>

subsection \<open>C1: one request per debounce window\<close>

text \<open>
  C1. Take a client in any state it can reach, and a non-empty sequence of \<^verbatim>\<open>subscribe\<close>
  calls for frames that are pairwise distinct after stripping and not tracked yet (the test
  \<^verbatim>\<open>this.frameInfos[frameID] === undefined\<close> of the code holds for each), all made before
  a timer fires. The calls return; after them exactly one timer is pending and no request has
  been issued; when the timer fires it issues exactly one request, whose
  \<^verbatim>\<open>source_frames\<close> contain all the stripped frame ids, and no timer is left. While the
  timer is pending, no \<^verbatim>\<open>subscribe\<close> call sets another one.
\<close>

theorem C1_one_request_per_window:
  assumes "reachable w"
    and "cs \<noteq> []"
    and "distinct (map (\<lambda>p. stripLeadingSlash (fst p)) cs)"
    and "\<forall>(f, c) \<in> set cs.
           getFrameInfo (frameInfos (client w)) (stripLeadingSlash f) = Undefined"
  shows "\<exists>w1. run w (map (\<lambda>(f, c). Subscribe f c) cs) = Inr w1 \<and>
           length (timers w1) = 1 \<and> calls (trace w1) = calls (trace w) \<and>
           (\<exists>w2 req. step w1 TimerFires = Inr w2 \<and> timers w2 = [] \<and>
              calls (trace w2) = calls (trace w) @ [req] \<and>
              (\<lambda>p. stripLeadingSlash (fst p)) ` set cs \<subseteq> set (source_frames req)) \<and>
           (\<forall>f c w3. step w1 (Subscribe f c) = Inr w3 \<longrightarrow> timers w3 = timers w1)"
proof -
  from assms(1) have cw: "consistent w" by (rule reachable_consistent)
  from assms(4) have np: "\<forall>(f, c) \<in> set cs. stripLeadingSlash f \<notin> set Object_prototype_keys"
    and un: "\<forall>(f, c) \<in> set cs. map_of (frameInfos (client w)) (stripLeadingSlash f) = None"
    by (auto simp: getFrameInfo_Undefined)
  from run_subscribes_returns [OF np] obtain w1 where
    r: "run w (map (\<lambda>(f, c). Subscribe f c) cs) = Inr w1" by blast
  from run_subscribes [OF cw r assms(3) un] assms(2)
  have keys: "map fst (frameInfos (client w1)) =
      map fst (frameInfos (client w)) @ map (\<lambda>p. stripLeadingSlash (fst p)) cs"
    and calls: "calls (trace w1) = calls (trace w)"
    and g: "goalUpdateRequested (client w1)"
    and c1: "consistent w1"
    by simp_all
  from c1 g have t: "length (timers w1) = 1" by (simp add: consistent_def)
  from step_TimerFires_pending [OF c1 g] obtain w2 req where
    s: "step w1 TimerFires = Inr w2" and t2: "timers w2 = []"
    and cl: "calls (trace w2) = calls (trace w1) @ [req]"
    and sf: "set (source_frames req) = fst ` set (frameInfos (client w1))"
    by blast
  have "set (map fst (frameInfos (client w1))) =
      set (map fst (frameInfos (client w)) @ map (\<lambda>p. stripLeadingSlash (fst p)) cs)"
    by (simp only: keys)
  then have "(\<lambda>p. stripLeadingSlash (fst p)) ` set cs \<subseteq> fst ` set (frameInfos (client w1))"
    by auto
  with sf have sub: "(\<lambda>p. stripLeadingSlash (fst p)) ` set cs \<subseteq> set (source_frames req)"
    by simp
  have p: "\<forall>f c w3. step w1 (Subscribe f c) = Inr w3 \<longrightarrow> timers w3 = timers w1"
    using step_Subscribe_pending [OF g] by blast
  from r t calls s t2 cl sub p show ?thesis by (auto simp: calls)
qed

theorem C1_one_request_per_window_witness:
  "\<exists>w w1 w2 req.
     program (Some (default_options demo_ros)) [Subscribe ''/wheel'' 1, TimerFires] = Inr w \<and>
     run w [Subscribe ''/odom'' 2, Subscribe ''map'' 3, Subscribe ''/laser'' 4] = Inr w1 \<and>
     length (timers w1) = 1 \<and> calls (trace w1) = calls (trace w) \<and>
     step w1 TimerFires = Inr w2 \<and> timers w2 = [] \<and>
     calls (trace w2) = calls (trace w) @ [req] \<and>
     {''odom'', ''map'', ''laser''} \<subseteq> set (source_frames req)"
proof -
  let ?cs = "[(''/odom'', 2), (''map'', 3), (''/laser'', 4)] :: (string \<times> cb) list"
  obtain w where p: "program (Some (default_options demo_ros)) [Subscribe ''/wheel'' 1, TimerFires] = Inr w"
    and fi: "frameInfos (client w) = [(''wheel'', \<lparr>cbs = [1], transform = None\<rparr>)]"
    by (simp add: eval_defs)
  have h1: "reachable w" using p by (rule reachable_program)
  have h2: "?cs \<noteq> []" by simp
  have h3: "distinct (map (\<lambda>p. stripLeadingSlash (fst p)) ?cs)"
    by (simp add: stripLeadingSlash_def)
  have h4: "\<forall>(f, c) \<in> set ?cs.
      getFrameInfo (frameInfos (client w)) (stripLeadingSlash f) = Undefined"
    by (simp add: fi stripLeadingSlash_def getFrameInfo_def Object_prototype_keys_def)
  from C1_one_request_per_window [OF h1 h2 h3 h4] obtain w1 w2 req where
    "run w (map (\<lambda>(f, c). Subscribe f c) ?cs) = Inr w1"
    "length (timers w1) = 1" "calls (trace w1) = calls (trace w)"
    "step w1 TimerFires = Inr w2" "timers w2 = []" "calls (trace w2) = calls (trace w) @ [req]"
    "(\<lambda>p. stripLeadingSlash (fst p)) ` set ?cs \<subseteq> set (source_frames req)"
    by blast
  moreover from this(7) have "{''odom'', ''map'', ''laser''} \<subseteq> set (source_frames req)"
    by (simp add: stripLeadingSlash_def)
  ultimately show ?thesis using p by auto
qed

subsection \<open>C2: subscribing to a tracked frame\<close>

text \<open>
  C2. For a frame that already has an entry, \<^verbatim>\<open>subscribe(frameId, callback)\<close> returns
  normally; the calls it has made by then are exactly one call of \<open>callback\<close> with the
  cached transform when the entry holds one, and none at all when it holds none; in both
  cases \<open>callback\<close> is appended to the entry's callback list and no other entry changes.
\<close>

theorem C2_subscribe_tracked:
  assumes "map_of (frameInfos this) (stripLeadingSlash frameID) = Some info"
  shows "\<exists>this'.
           subscribe frameID callback this =
             Inr ((case transform info of None \<Rightarrow> [] | Some t \<Rightarrow> [Callback callback t]), this') \<and>
           map_of (frameInfos this') (stripLeadingSlash frameID) =
             Some (info\<lparr>cbs := cbs info @ [callback]\<rparr>) \<and>
           (\<forall>k. k \<noteq> stripLeadingSlash frameID \<longrightarrow>
                map_of (frameInfos this') k = map_of (frameInfos this) k)"
  using assms by (simp add: subscribe_def getFrameInfo_def AList.update_conv')

theorem C2_subscribe_tracked_witness:
  "map_of (frameInfos demo_client) (stripLeadingSlash ''/wheel'') =
     Some \<lparr>cbs = [1, 2], transform = Some demo_transform\<rparr> \<and>
   (\<exists>this'. subscribe ''/wheel'' 7 demo_client = Inr ([Callback 7 demo_transform], this') \<and>
            map_of (frameInfos this') ''wheel'' =
              Some \<lparr>cbs = [1, 2, 7], transform = Some demo_transform\<rparr>) \<and>
   map_of (frameInfos demo_client) (stripLeadingSlash ''odom'') =
     Some \<lparr>cbs = [3], transform = None\<rparr> \<and>
   (\<exists>this'. subscribe ''odom'' 7 demo_client = Inr ([], this') \<and>
            map_of (frameInfos this') ''odom'' = Some \<lparr>cbs = [3, 7], transform = None\<rparr>)"
proof -
  have h1: "map_of (frameInfos demo_client) (stripLeadingSlash ''/wheel'') =
     Some \<lparr>cbs = [1, 2], transform = Some demo_transform\<rparr>"
    by (simp add: demo_client_def stripLeadingSlash_def)
  have h2: "map_of (frameInfos demo_client) (stripLeadingSlash ''odom'') =
     Some \<lparr>cbs = [3], transform = None\<rparr>"
    by (simp add: demo_client_def stripLeadingSlash_def)
  have s1: "stripLeadingSlash ''/wheel'' = ''wheel''"
    and s2: "stripLeadingSlash ''odom'' = ''odom''"
    by (simp_all add: stripLeadingSlash_def)
  from C2_subscribe_tracked [OF h1, of 7] C2_subscribe_tracked [OF h2, of 7] h1 h2
  show ?thesis unfolding s1 s2 by auto
qed

subsection \<open>C3: stream messages\<close>

text \<open>
  C3. After two callbacks have subscribed to \<^verbatim>\<open>wheel\<close> and the stream is attached, a
  message with an update for \<^verbatim>\<open>/wheel\<close> calls both, in registration order, with the new
  transform (in general: \<open>processTransform_tracked\<close>, \<open>processTransform_untracked\<close>).
  When an update for \<^verbatim>\<open>toString\<close>, which is not tracked, comes first in the same
  message, the lookup finds the inherited function, \<^verbatim>\<open>info.cbs.forEach\<close> throws a
  TypeError, and the update for \<^verbatim>\<open>wheel\<close> is never delivered.
\<close>

theorem C3_feedback_inherited_name:
  "map_sum id trace
     (program (Some (default_options demo_ros))
        [Subscribe ''wheel'' 1, Subscribe ''/wheel'' 2, TimerFires,
         ResponseArrives (Response ''/tf_1''),
         MessageArrives \<lparr>transforms = [wheel_update]\<rparr>]) =
     Inr [SetTimeout 50,
          CallService \<lparr>source_frames = [''wheel''], target_frame = ''/base_link'',
            angular_thres = 2, trans_thres = 1 / 100, req_rate = 10,
            timeout = \<lparr>secs = 2, nsecs = 0\<rparr>\<rparr>,
          RosTopic (Topic ''/tf_1'' ''tf2_web_republisher/TFArray''),
          TopicSubscribe (Topic ''/tf_1'' ''tf2_web_republisher/TFArray''),
          Callback 1 demo_transform, Callback 2 demo_transform] \<and>
   program (Some (default_options demo_ros))
     [Subscribe ''wheel'' 1, Subscribe ''/wheel'' 2, TimerFires,
      ResponseArrives (Response ''/tf_1''),
      MessageArrives
        \<lparr>transforms = [wheel_update\<lparr>child_frame_id := ''toString''\<rparr>, wheel_update]\<rparr>] =
     Inl TypeError"
  by (simp add: eval_defs wheel_update_def demo_transform_def)

subsection \<open>C4: subscribing after the timer has fired\<close>

text \<open>
  C4, as the code has it. Take a client in any state it can reach in which
  \<^verbatim>\<open>goalUpdateRequested\<close> is false: no timer is pending, the last one has fired, whether
  or not its request is still in flight or a stream is attached. A \<^verbatim>\<open>subscribe\<close> call
  for a frame not tracked yet returns and sets a new timer with the delay
  \<^verbatim>\<open>goalUpdateDelay\<close>; when that timer fires, a fresh request is issued for the tracked
  frames and the new one.
\<close>

theorem C4_late_subscribe_requests_again:
  assumes "reachable w"
    and "\<not> goalUpdateRequested (client w)"
    and "getFrameInfo (frameInfos (client w)) (stripLeadingSlash f) = Undefined"
  shows "timers w = [] \<and>
         (\<exists>w1 w2 req.
            step w (Subscribe f cb) = Inr w1 \<and> timers w1 = [goalUpdateDelay (client w)] \<and>
            step w1 TimerFires = Inr w2 \<and>
            in_flight w2 = in_flight w @ [req] \<and>
            calls (trace w2) = calls (trace w) @ [req] \<and>
            set (source_frames req) =
              insert (stripLeadingSlash f) (fst ` set (frameInfos (client w))))"
proof -
  from assms(1) have cw: "consistent w" by (rule reachable_consistent)
  with assms(2) have t0: "timers w = []" by (simp add: consistent_def)
  from step_Subscribe_returns [OF assms(3)] obtain w1 where
    st: "step w (Subscribe f cb) = Inr w1" by blast
  from assms(3) have un: "map_of (frameInfos (client w)) (stripLeadingSlash f) = None"
    by (simp add: getFrameInfo_Undefined)
  note a = step_Subscribe_untracked [OF cw st un]
  have c1: "consistent w1" by (rule consistent_step [OF cw st])
  from a(3) assms(2) have t1: "timers w1 = [goalUpdateDelay (client w)]" by simp
  from step_TimerFires_pending [OF c1 a(2)] obtain w2 req where
    s: "step w1 TimerFires = Inr w2"
    and fl: "in_flight w2 = in_flight w1 @ [req]"
    and cl: "calls (trace w2) = calls (trace w1) @ [req]"
    and sf: "set (source_frames req) = fst ` set (frameInfos (client w1))"
    by blast
  have "set (map fst (frameInfos (client w1))) =
      set (map fst (frameInfos (client w)) @ [stripLeadingSlash f])"
    by (simp only: a(1))
  with sf have "set (source_frames req) =
      insert (stripLeadingSlash f) (fst ` set (frameInfos (client w)))"
    by simp
  with t0 t1 st s fl cl a(4) a(5) show ?thesis by auto
qed

theorem C4_late_subscribe_requests_again_witness:
  "\<exists>w w1 w2 req.
     program (Some (default_options demo_ros)) [Subscribe ''a'' 1, TimerFires] = Inr w \<and>
     in_flight w \<noteq> [] \<and> timers w = [] \<and>
     step w (Subscribe ''/b'' 2) = Inr w1 \<and> timers w1 = [50] \<and>
     step w1 TimerFires = Inr w2 \<and>
     in_flight w2 = in_flight w @ [req] \<and>
     set (source_frames req) = {''a'', ''b''}"
proof -
  let ?evs = "[Subscribe ''a'' 1, TimerFires]"
  obtain w where p: "program (Some (default_options demo_ros)) ?evs = Inr w"
    and fi: "frameInfos (client w) = [(''a'', \<lparr>cbs = [1], transform = None\<rparr>)]"
    and g: "\<not> goalUpdateRequested (client w)"
    and fl: "in_flight w \<noteq> []"
    and d: "goalUpdateDelay (client w) = 50"
    by (simp add: eval_defs)
  have h1: "reachable w" using p by (rule reachable_program)
  have h3: "getFrameInfo (frameInfos (client w)) (stripLeadingSlash ''/b'') = Undefined"
    by (simp add: fi stripLeadingSlash_def getFrameInfo_def Object_prototype_keys_def)
  from C4_late_subscribe_requests_again [OF h1 g h3, of 2] obtain w1 w2 req where
    "timers w = []" "step w (Subscribe ''/b'' 2) = Inr w1"
    "timers w1 = [goalUpdateDelay (client w)]"
    "step w1 TimerFires = Inr w2" "in_flight w2 = in_flight w @ [req]"
    "set (source_frames req) = insert (stripLeadingSlash ''/b'') (fst ` set (frameInfos (client w)))"
    by blast
  moreover from this(6) have "set (source_frames req) = {''a'', ''b''}"
    by (auto simp: fi stripLeadingSlash_def)
  ultimately show ?thesis using p fl d by auto
qed

text \<open>
  C4 as stated says that such a call triggers no fresh request. With the first request in
  flight, and also with a stream attached, \<^verbatim>\<open>subscribe("b", cb)\<close> leads to a second
  request, for \<^verbatim>\<open>a\<close> and \<^verbatim>\<open>b\<close>.
\<close>

theorem C4_late_subscribe_counterexample:
  "map_sum id (\<lambda>w. (map source_frames (in_flight w), currentTopic (client w)))
     (program (Some (default_options demo_ros)) [Subscribe ''a'' 1, TimerFires]) =
     Inr ([[''a'']], None) \<and>
   map_sum id (\<lambda>w. (map source_frames (in_flight w), currentTopic (client w)))
     (program (Some (default_options demo_ros))
        [Subscribe ''a'' 1, TimerFires, Subscribe ''b'' 2, TimerFires]) =
     Inr ([[''a''], [''a'', ''b'']], None) \<and>
   map_sum id (\<lambda>w. (map source_frames (calls (trace w)), currentTopic (client w)))
     (program (Some (default_options demo_ros))
        [Subscribe ''a'' 1, TimerFires, ResponseArrives (Response ''/tf_1''),
         Subscribe ''b'' 2, TimerFires]) =
     Inr ([[''a''], [''a'', ''b'']], Some (Topic ''/tf_1'' ''tf2_web_republisher/TFArray''))"
  by (simp add: eval_defs)

subsection \<open>C5: at most one stream\<close>

text \<open>
  C5. In every state the client can reach, at no point of the trace so far has more than one
  topic subscription been open, and the open subscriptions are exactly \<^verbatim>\<open>currentTopic\<close>.
  When a response arrives while a stream from an earlier response is attached, the client
  first unsubscribes the old topic, then creates the topic named by the response and
  subscribes to it, and this new topic is the only open subscription afterwards.
\<close>

theorem C5_one_stream:
  assumes "reachable w"
  shows "(\<forall>n. length (subscriptions (take n (trace w))) \<le> 1) \<and>
         subscriptions (trace w) = (case currentTopic (client w) of None \<Rightarrow> [] | Some t \<Rightarrow> [t]) \<and>
         (\<forall>resp old. currentTopic (client w) = Some old \<and> in_flight w \<noteq> [] \<longrightarrow>
            (\<exists>w'. step w (ResponseArrives resp) = Inr w' \<and>
                  trace w' = trace w @
                    [TopicUnsubscribe old,
                     RosTopic (Topic (topic_name resp) ''tf2_web_republisher/TFArray''),
                     TopicSubscribe (Topic (topic_name resp) ''tf2_web_republisher/TFArray'')] \<and>
                  subscriptions (trace w') =
                    [Topic (topic_name resp) ''tf2_web_republisher/TFArray''] \<and>
                  currentTopic (client w') =
                    Some (Topic (topic_name resp) ''tf2_web_republisher/TFArray'')))"
proof -
  from assms have cw: "consistent w" by (rule reachable_consistent)
  then have a: "\<forall>n. length (subscriptions (take n (trace w))) \<le> 1"
    and b: "subscriptions (trace w) = (case currentTopic (client w) of None \<Rightarrow> [] | Some t \<Rightarrow> [t])"
    by (simp_all add: consistent_def)
  have c: "\<exists>w'. step w (ResponseArrives resp) = Inr w' \<and>
                  trace w' = trace w @
                    [TopicUnsubscribe old,
                     RosTopic (Topic (topic_name resp) ''tf2_web_republisher/TFArray''),
                     TopicSubscribe (Topic (topic_name resp) ''tf2_web_republisher/TFArray'')] \<and>
                  subscriptions (trace w') =
                    [Topic (topic_name resp) ''tf2_web_republisher/TFArray''] \<and>
                  currentTopic (client w') =
                    Some (Topic (topic_name resp) ''tf2_web_republisher/TFArray'')"
    if cur: "currentTopic (client w) = Some old" and fl: "in_flight w \<noteq> []" for resp old
  proof -
    from fl obtain q qs where q: "in_flight w = q # qs" by (cases "in_flight w") auto
    from b cur have s: "subscriptions (trace w) = [old]" by simp
    show ?thesis
      using q cur s
      by (simp add: step_def processResponse_def Let_def commit_simps subscriptions_append
          track_def)
  qed
  from a b c show ?thesis by blast
qed

theorem C5_one_stream_witness:
  "\<exists>w w'.
     program (Some (default_options demo_ros))
       [Subscribe ''a'' 1, TimerFires, ResponseArrives (Response ''/tf_1''),
        Subscribe ''b'' 2, TimerFires] = Inr w \<and>
     subscriptions (trace w) = [Topic ''/tf_1'' ''tf2_web_republisher/TFArray''] \<and>
     step w (ResponseArrives (Response ''/tf_2'')) = Inr w' \<and>
     trace w' = trace w @
       [TopicUnsubscribe (Topic ''/tf_1'' ''tf2_web_republisher/TFArray''),
        RosTopic (Topic ''/tf_2'' ''tf2_web_republisher/TFArray''),
        TopicSubscribe (Topic ''/tf_2'' ''tf2_web_republisher/TFArray'')] \<and>
     subscriptions (trace w') = [Topic ''/tf_2'' ''tf2_web_republisher/TFArray''] \<and>
     length (subscriptions (take 5 (trace w))) \<le> 1"
proof -
  obtain w where p: "program (Some (default_options demo_ros))
       [Subscribe ''a'' 1, TimerFires, ResponseArrives (Response ''/tf_1''),
        Subscribe ''b'' 2, TimerFires] = Inr w"
    and cur: "currentTopic (client w) = Some (Topic ''/tf_1'' ''tf2_web_republisher/TFArray'')"
    and fl: "in_flight w \<noteq> []"
    by (simp add: eval_defs)
  have h: "reachable w" using p by (rule reachable_program)
  note t = C5_one_stream [OF h]
  from t cur have s: "subscriptions (trace w) = [Topic ''/tf_1'' ''tf2_web_republisher/TFArray'']"
    by simp
  from t have n: "length (subscriptions (take 5 (trace w))) \<le> 1" by blast
  from t cur fl obtain w' where
    "step w (ResponseArrives (Response ''/tf_2'')) = Inr w'"
    "trace w' = trace w @
       [TopicUnsubscribe (Topic ''/tf_1'' ''tf2_web_republisher/TFArray''),
        RosTopic (Topic (topic_name (Response ''/tf_2'')) ''tf2_web_republisher/TFArray''),
        TopicSubscribe (Topic (topic_name (Response ''/tf_2'')) ''tf2_web_republisher/TFArray'')]"
    "subscriptions (trace w') =
       [Topic (topic_name (Response ''/tf_2'')) ''tf2_web_republisher/TFArray'']"
    by blast
  with p s n show ?thesis by auto
qed

subsection \<open>C6: entries and their callbacks\<close>

text \<open>
  C6. After any sequence of completed operations, the callbacks that the frame map holds for
  each frame are exactly those registered by the \<^verbatim>\<open>subscribe\<close> and \<^verbatim>\<open>unsubscribe\<close>
  calls so far, so that a frame has an entry if and only if at least one callback is
  registered for it. \<^verbatim>\<open>unsubscribe\<close> on a tracked frame returns, removes the callback
  once from that frame's list, keeps the entry and its transform while callbacks remain,
  leaves every other entry alone, and changes nothing when the callback is not in the list.
  Unsubscribing the only callback of a frame deletes its entry; a following \<^verbatim>\<open>subscribe\<close>
  to that frame calls no callback (it sets the timer unless one is pending) and creates a
  fresh entry that holds the new callback and no transform.
\<close>

theorem C6_entry_iff_callback:
  assumes "program opts evs = Inr w"
  shows "(\<forall>k. callbacks (client w) k = registered evs k) \<and>
         (\<forall>k. (\<exists>info. map_of (frameInfos (client w)) k = Some info) \<longleftrightarrow>
              registered evs k \<noteq> []) \<and>
         (\<forall>f c info.
            map_of (frameInfos (client w)) (stripLeadingSlash f) = Some info \<longrightarrow>
            (\<exists>this'.
               unsubscribe f c (client w) = Inr ([], this') \<and>
               map_of (frameInfos this') (stripLeadingSlash f) =
                 (if remove1 c (cbs info) = [] then None
                  else Some (info\<lparr>cbs := remove1 c (cbs info)\<rparr>)) \<and>
               (\<forall>k. k \<noteq> stripLeadingSlash f \<longrightarrow>
                    map_of (frameInfos this') k = map_of (frameInfos (client w)) k) \<and>
               (c \<notin> set (cbs info) \<longrightarrow> this' = client w))) \<and>
         (\<forall>f c info.
            map_of (frameInfos (client w)) (stripLeadingSlash f) = Some info \<and> cbs info = [c] \<longrightarrow>
            (\<exists>this'.
               unsubscribe f c (client w) = Inr ([], this') \<and>
               map_of (frameInfos this') (stripLeadingSlash f) = None \<and>
               (\<forall>c2. \<exists>this''.
                  subscribe f c2 this' =
                    Inr (if goalUpdateRequested this' then []
                         else [SetTimeout (goalUpdateDelay this')], this'') \<and>
                  map_of (frameInfos this'') (stripLeadingSlash f) =
                    Some \<lparr>cbs = [c2], transform = None\<rparr>)))"
proof -
  from assms have "reachable w" by (rule reachable_program)
  then have "consistent w" by (rule reachable_consistent)
  then have t: "tidy (client w)" by (simp add: consistent_def)
  have a: "\<forall>k. callbacks (client w) k = registered evs k"
    using callbacks_program [OF assms] by simp
  have b: "\<forall>k. (\<exists>info. map_of (frameInfos (client w)) k = Some info) \<longleftrightarrow>
              registered evs k \<noteq> []"
  proof
    fix k
    show "(\<exists>info. map_of (frameInfos (client w)) k = Some info) \<longleftrightarrow> registered evs k \<noteq> []"
    proof (cases "map_of (frameInfos (client w)) k")
      case None
      with a [rule_format, of k] show ?thesis by (simp add: callbacks_def)
    next
      case (Some info)
      with t have "cbs info \<noteq> []" by (auto simp: tidy_def)
      with Some a [rule_format, of k] show ?thesis by (simp add: callbacks_def)
    qed
  qed
  have c: "\<exists>this'.
               unsubscribe f c (client w) = Inr ([], this') \<and>
               map_of (frameInfos this') (stripLeadingSlash f) =
                 (if remove1 c (cbs info) = [] then None
                  else Some (info\<lparr>cbs := remove1 c (cbs info)\<rparr>)) \<and>
               (\<forall>k. k \<noteq> stripLeadingSlash f \<longrightarrow>
                    map_of (frameInfos this') k = map_of (frameInfos (client w)) k) \<and>
               (c \<notin> set (cbs info) \<longrightarrow> this' = client w)"
    if m: "map_of (frameInfos (client w)) (stripLeadingSlash f) = Some info" for f c info
  proof (cases "c \<in> set (cbs info)")
    case True
    with unsubscribe_Own [OF m, of c] show ?thesis
      by (simp add: AList.update_conv' AList.delete_conv')
  next
    case False
    from t m have "cbs info \<noteq> []" by (auto simp: tidy_def)
    with False unsubscribe_Own [OF m, of c] m show ?thesis
      by (simp add: remove1_idem)
  qed
  have d: "\<exists>this'.
               unsubscribe f c (client w) = Inr ([], this') \<and>
               map_of (frameInfos this') (stripLeadingSlash f) = None \<and>
               (\<forall>c2. \<exists>this''.
                  subscribe f c2 this' =
                    Inr (if goalUpdateRequested this' then []
                         else [SetTimeout (goalUpdateDelay this')], this'') \<and>
                  map_of (frameInfos this'') (stripLeadingSlash f) =
                    Some \<lparr>cbs = [c2], transform = None\<rparr>)"
    if m: "map_of (frameInfos (client w)) (stripLeadingSlash f) = Some info" and l: "cbs info = [c]"
    for f c info
  proof -
    let ?k = "stripLeadingSlash f"
    let ?this' = "(client w)\<lparr>frameInfos := AList.delete ?k (frameInfos (client w)),
                              needUpdate := True\<rparr>"
    from t m have np: "?k \<notin> set Object_prototype_keys" by (auto simp: tidy_def)
    have u: "unsubscribe f c (client w) = Inr ([], ?this')"
      using m l by (simp add: unsubscribe_def getFrameInfo_def Let_def splice1_def)
    have d: "map_of (frameInfos ?this') ?k = None"
      by (simp add: AList.delete_conv')
    have s: "\<exists>this''. subscribe f c2 ?this' =
                    Inr (if goalUpdateRequested ?this' then []
                         else [SetTimeout (goalUpdateDelay ?this')], this'') \<and>
                  map_of (frameInfos this'') ?k = Some \<lparr>cbs = [c2], transform = None\<rparr>" for c2
      using np d
      by (simp add: subscribe_def getFrameInfo_def Let_def map_add_def)
    from u d s show ?thesis by blast
  qed
  from a b c d show ?thesis by blast
qed

theorem C6_entry_iff_callback_witness:
  "\<exists>w w' this1 this2 this3.
     program (Some (default_options demo_ros))
       [Subscribe ''/wheel'' 1, Subscribe ''wheel'' 2, TimerFires,
        ResponseArrives (Response ''/tf_1''),
        MessageArrives \<lparr>transforms = [wheel_update]\<rparr>] = Inr w \<and>
     callbacks (client w) ''wheel'' = [1, 2] \<and>
     unsubscribe ''/wheel'' 1 (client w) = Inr ([], this1) \<and>
     map_of (frameInfos this1) ''wheel'' = Some \<lparr>cbs = [2], transform = Some demo_transform\<rparr> \<and>
     unsubscribe ''wheel'' 7 (client w) = Inr ([], client w) \<and>
     program (Some (default_options demo_ros))
       [Subscribe ''/wheel'' 1, Subscribe ''wheel'' 2, TimerFires,
        ResponseArrives (Response ''/tf_1''),
        MessageArrives \<lparr>transforms = [wheel_update]\<rparr>,
        Unsubscribe ''/wheel'' 1] = Inr w' \<and>
     callbacks (client w') ''wheel'' = [2] \<and>
     unsubscribe ''wheel'' 2 (client w') = Inr ([], this2) \<and>
     map_of (frameInfos this2) ''wheel'' = None \<and>
     subscribe ''/wheel'' 9 this2 = Inr ([SetTimeout 50], this3) \<and>
     map_of (frameInfos this3) ''wheel'' = Some \<lparr>cbs = [9], transform = None\<rparr>"
proof -
  let ?P = "Some (default_options demo_ros)"
  let ?evs = "[Subscribe ''/wheel'' 1, Subscribe ''wheel'' 2, TimerFires,
        ResponseArrives (Response ''/tf_1''),
        MessageArrives \<lparr>transforms = [wheel_update]\<rparr>]"
  let ?info = "\<lparr>cbs = [1, 2], transform = Some demo_transform\<rparr>"
  let ?info' = "\<lparr>cbs = [2], transform = Some demo_transform\<rparr>"
  have s: "stripLeadingSlash ''/wheel'' = ''wheel''" "stripLeadingSlash ''wheel'' = ''wheel''"
    by (simp_all add: stripLeadingSlash_def)
  obtain w where p: "program ?P ?evs = Inr w"
    and fi: "frameInfos (client w) = [(''wheel'', ?info)]"
    by (simp add: eval_defs wheel_update_def demo_transform_def)
  obtain w' where p': "program ?P (?evs @ [Unsubscribe ''/wheel'' 1]) = Inr w'"
    and fi': "frameInfos (client w') = [(''wheel'', ?info')]"
    and g': "\<not> goalUpdateRequested (client w')" and d': "goalUpdateDelay (client w') = 50"
    by (simp add: eval_defs wheel_update_def demo_transform_def)
  have r: "registered ?evs ''wheel'' = [1, 2]"
    "registered (?evs @ [Unsubscribe ''/wheel'' 1]) ''wheel'' = [2]"
    by (simp_all add: registered_def registered_step_def stripLeadingSlash_def)
  note t = C6_entry_iff_callback [OF p]
  note t' = C6_entry_iff_callback [OF p']
  have m: "map_of (frameInfos (client w)) (stripLeadingSlash ''/wheel'') = Some ?info"
    "map_of (frameInfos (client w)) (stripLeadingSlash ''wheel'') = Some ?info"
    by (simp_all add: fi s)
  have m': "map_of (frameInfos (client w')) (stripLeadingSlash ''wheel'') = Some ?info'"
    by (simp add: fi' s)
  from t r(1) have c1: "callbacks (client w) ''wheel'' = [1, 2]" by simp
  from t' r(2) have c2: "callbacks (client w') ''wheel'' = [2]" by simp
  from t m(1) obtain this1 where
    u1: "unsubscribe ''/wheel'' 1 (client w) = Inr ([], this1)"
    and k1: "map_of (frameInfos this1) (stripLeadingSlash ''/wheel'') =
       (if remove1 1 (cbs ?info) = [] then None else Some (?info\<lparr>cbs := remove1 1 (cbs ?info)\<rparr>))"
    by blast
  from t m(2) obtain thisx where
    "unsubscribe ''wheel'' 7 (client w) = Inr ([], thisx)"
    "7 \<notin> set (cbs ?info) \<longrightarrow> thisx = client w"
    by blast
  then have u7: "unsubscribe ''wheel'' 7 (client w) = Inr ([], client w)" by simp
  have l: "cbs ?info' = [2]" by simp
  from t' m' l obtain this2 where
    u2: "unsubscribe ''wheel'' 2 (client w') = Inr ([], this2)"
    and n2: "map_of (frameInfos this2) (stripLeadingSlash ''wheel'') = None"
    and r2: "\<forall>c2. \<exists>this''.
                  subscribe ''wheel'' c2 this2 =
                    Inr (if goalUpdateRequested this2 then []
                         else [SetTimeout (goalUpdateDelay this2)], this'') \<and>
                  map_of (frameInfos this'') (stripLeadingSlash ''wheel'') =
                    Some \<lparr>cbs = [c2], transform = None\<rparr>"
    by blast
  from unsubscribe_effects(3) [OF u2] g' have g2: "\<not> goalUpdateRequested this2" by simp
  from u2 d' have d2: "goalUpdateDelay this2 = 50"
    by (auto simp: unsubscribe_def Let_def split: property.splits if_splits)
  from spec [OF r2, of 9] obtain this3 where
    s9: "subscribe ''wheel'' 9 this2 =
           Inr (if goalUpdateRequested this2 then []
                else [SetTimeout (goalUpdateDelay this2)], this3)"
    and m9: "map_of (frameInfos this3) (stripLeadingSlash ''wheel'') =
           Some \<lparr>cbs = [9], transform = None\<rparr>"
    by blast
  have "subscribe ''/wheel'' 9 this2 = subscribe ''wheel'' 9 this2"
    by (simp add: subscribe_def s)
  with s9 g2 d2 have s9': "subscribe ''/wheel'' 9 this2 = Inr ([SetTimeout 50], this3)"
    by simp
  have "program ?P ?evs = Inr w \<and>
     callbacks (client w) ''wheel'' = [1, 2] \<and>
     unsubscribe ''/wheel'' 1 (client w) = Inr ([], this1) \<and>
     map_of (frameInfos this1) ''wheel'' = Some ?info' \<and>
     unsubscribe ''wheel'' 7 (client w) = Inr ([], client w) \<and>
     program ?P (?evs @ [Unsubscribe ''/wheel'' 1]) = Inr w' \<and>
     callbacks (client w') ''wheel'' = [2] \<and>
     unsubscribe ''wheel'' 2 (client w') = Inr ([], this2) \<and>
     map_of (frameInfos this2) ''wheel'' = None \<and>
     subscribe ''/wheel'' 9 this2 = Inr ([SetTimeout 50], this3) \<and>
     map_of (frameInfos this3) ''wheel'' = Some \<lparr>cbs = [9], transform = None\<rparr>"
    using p c1 u1 k1 u7 p' c2 u2 n2 s9' m9 unfolding s by simp
  then show ?thesis by (simp only: append_Cons append_Nil) blast
qed

subsection \<open>C7: one leading slash is stripped\<close>




subsection \<open>C8: the request of a client with default options\<close>

text \<open>
  C8. A client constructed with default options, after the single call
  \<^verbatim>\<open>subscribe("/base_link", cb)\<close>, has one timer pending, with delay 50, and has issued no
  request; when the timer fires, the requests issued are exactly one, with
  \<^verbatim>\<open>source_frames = ["base_link"]\<close>, \<^verbatim>\<open>target_frame = "/base_link"\<close>,
  \<^verbatim>\<open>angular_thres = 2.0\<close>, \<^verbatim>\<open>trans_thres = 0.01\<close>, \<^verbatim>\<open>rate = 10.0\<close> and
  \<^verbatim>\<open>timeout = {secs: 2, nsecs: 0}\<close>, and no timer is left.
\<close>

theorem C8_default_request:
  "map_sum id (\<lambda>w. (timers w, calls (trace w)))
     (program (Some (default_options r)) [Subscribe ''/base_link'' cb]) = Inr ([50], []) \<and>
   map_sum id (\<lambda>w. (timers w, calls (trace w)))
     (program (Some (default_options r)) [Subscribe ''/base_link'' cb, TimerFires]) =
     Inr ([], [\<lparr>source_frames = [''base_link''], target_frame = ''/base_link'', angular_thres = 2,
                trans_thres = 1 / 100, req_rate = 10, timeout = \<lparr>secs = 2, nsecs = 0\<rparr>\<rparr>])"
  by (simp add: eval_defs)

subsection \<open>C9: unsubscribing what is not there\<close>

text \<open>
  C9. For a frame id that the frame map does not hold, or a callback that the entry does not
  list, \<^verbatim>\<open>unsubscribe\<close> is meant to do nothing. It does so (\<open>unsubscribe_noop\<close>) unless
  the id names a property of \<^verbatim>\<open>Object.prototype\<close>. On a client just constructed,
  \<^verbatim>\<open>unsubscribe("toString", cb)\<close> finds the inherited function, and
  \<^verbatim>\<open>info.cbs.indexOf\<close> throws a TypeError; likewise \<^verbatim>\<open>unsubscribe("/valueOf", cb)\<close> on
  a client that tracks other frames.
\<close>

theorem C9_unsubscribe_inherited_name:
  "program (Some (default_options demo_ros)) [Unsubscribe ''toString'' 1] = Inl TypeError \<and>
   map_of (frameInfos demo_client) (stripLeadingSlash ''/valueOf'') = None \<and>
   unsubscribe ''/valueOf'' 1 demo_client = Inl TypeError"
  by (simp add: eval_defs demo_client_def)

subsection \<open>C10: falsy option values\<close>

text \<open>
  C10. The constructor cannot tell the option value \<^verbatim>\<open>0\<close> (for \<^verbatim>\<open>angularThres\<close>,
  \<^verbatim>\<open>transThres\<close>, \<^verbatim>\<open>rate\<close>, \<^verbatim>\<open>goalUpdateDelay\<close>, \<^verbatim>\<open>topicTimeout\<close>) or the
  empty string (for \<^verbatim>\<open>fixedFrame\<close>) from an absent option: it builds the same client, whose
  field holds the default (2, 0.01, 10, 50, 2 s and \<^verbatim>\<open>"/base_link"\<close>). No options at all
  give a client whose thresholds or rate are zero.
\<close>

theorem C10_falsy_options:
  "TFClient (Some (opts\<lparr>opt_angularThres := Some 0\<rparr>)) =
     TFClient (Some (opts\<lparr>opt_angularThres := None\<rparr>)) \<and>
   TFClient (Some (opts\<lparr>opt_transThres := Some 0\<rparr>)) =
     TFClient (Some (opts\<lparr>opt_transThres := None\<rparr>)) \<and>
   TFClient (Some (opts\<lparr>opt_rate := Some 0\<rparr>)) =
     TFClient (Some (opts\<lparr>opt_rate := None\<rparr>)) \<and>
   TFClient (Some (opts\<lparr>opt_goalUpdateDelay := Some 0\<rparr>)) =
     TFClient (Some (opts\<lparr>opt_goalUpdateDelay := None\<rparr>)) \<and>
   TFClient (Some (opts\<lparr>opt_topicTimeout := Some 0\<rparr>)) =
     TFClient (Some (opts\<lparr>opt_topicTimeout := None\<rparr>)) \<and>
   TFClient (Some (opts\<lparr>opt_fixedFrame := Some ''''\<rparr>)) =
     TFClient (Some (opts\<lparr>opt_fixedFrame := None\<rparr>)) \<and>
   map_sum id angularThres
     (TFClient (Some (opts\<lparr>opt_ros := Some r, opt_angularThres := Some 0\<rparr>))) = Inr 2 \<and>
   map_sum id transThres
     (TFClient (Some (opts\<lparr>opt_ros := Some r, opt_transThres := Some 0\<rparr>))) = Inr (1 / 100) \<and>
   map_sum id rate
     (TFClient (Some (opts\<lparr>opt_ros := Some r, opt_rate := Some 0\<rparr>))) = Inr 10 \<and>
   map_sum id goalUpdateDelay
     (TFClient (Some (opts\<lparr>opt_ros := Some r, opt_goalUpdateDelay := Some 0\<rparr>))) = Inr 50 \<and>
   map_sum id topicTimeout
     (TFClient (Some (opts\<lparr>opt_ros := Some r, opt_topicTimeout := Some 0\<rparr>))) =
     Inr \<lparr>secs = 2, nsecs = 0\<rparr> \<and>
   map_sum id fixedFrame
     (TFClient (Some (opts\<lparr>opt_ros := Some r, opt_fixedFrame := Some ''''\<rparr>))) =
     Inr ''/base_link'' \<and>
   map_sum id angularThres (TFClient any) \<noteq> Inr 0 \<and>
   map_sum id transThres (TFClient any) \<noteq> Inr 0 \<and>
   map_sum id rate (TFClient any) \<noteq> Inr 0"
  by (simp add: TFClient_def or_num_def or_str_def Let_def round53_0 round53_2
      split: option.splits)

theorem C10_falsy_options_witness:
  "map_sum id
     (\<lambda>c. (angularThres c, transThres c, rate c, goalUpdateDelay c, topicTimeout c, fixedFrame c))
     (TFClient (Some \<lparr>opt_ros = Some demo_ros, opt_fixedFrame = Some '''',
        opt_angularThres = Some 0, opt_transThres = Some 0, opt_rate = Some 0,
        opt_goalUpdateDelay = Some 0, opt_topicTimeout = Some 0\<rparr>))
   = Inr (2, 1 / 100, 10, 50, \<lparr>secs = 2, nsecs = 0\<rparr>, ''/base_link'')"
  using C10_falsy_options [of "default_options demo_ros" demo_ros None]
  by (simp add: TFClient_def or_num_def or_str_def Let_def round53_0 round53_2)

end
